theory Spec2Isabelle
  imports Complex_Main "HOL-Library.Word" "HOL-Library.Sublist" "HOL-Library.Monad_Syntax"
begin

section \<open>JavaScript strings\<close>

text \<open>
  A JavaScript string is a sequence of UTF-16 code units. The glyphs the scraper looks
  for (U+2605 BLACK STAR, U+00BD VULGAR FRACTION ONE HALF) are single code units, so
  \<open>length\<close>, \<open>match\<close> and \<open>includes\<close> of the source work on the list as written here.
  ASCII literals of the source are written \<open>js ''...''\<close>.
\<close>

type_synonym jschar = "16 word"
type_synonym jsstring = "jschar list"

definition js :: "string \<Rightarrow> jsstring" where
  "js s = map of_char s"

abbreviation STAR :: jschar where "STAR \<equiv> 0x2605"
abbreviation HALF :: jschar where "HALF \<equiv> 0xBD"
abbreviation LPAREN :: jschar where "LPAREN \<equiv> 0x28"
abbreviation RPAREN :: jschar where "RPAREN \<equiv> 0x29"

text \<open>The regular-expression class \<open>\d\<close>: the ten ASCII digits.\<close>

definition isDigit :: "jschar \<Rightarrow> bool" where
  "isDigit c = (0x30 \<le> c \<and> c \<le> 0x39)"

text \<open>
  The class \<open>\s\<close> and the characters \<open>String.prototype.trim\<close> removes are the same
  set: ECMAScript WhiteSpace and LineTerminator.
\<close>

definition isSpace :: "jschar \<Rightarrow> bool" where
  "isSpace c =
     (c = 0x09 \<or> c = 0x0A \<or> c = 0x0B \<or> c = 0x0C \<or> c = 0x0D \<or> c = 0x20 \<or> c = 0xA0 \<or>
      c = 0x1680 \<or> (0x2000 \<le> c \<and> c \<le> 0x200A) \<or> c = 0x2028 \<or> c = 0x2029 \<or>
      c = 0x202F \<or> c = 0x205F \<or> c = 0x3000 \<or> c = 0xFEFF)"

definition trim :: "jsstring \<Rightarrow> jsstring" where
  "trim s = rev (dropWhile isSpace (rev (dropWhile isSpace s)))"

text \<open>
  \<open>s.replace(pat, rep)\<close> with a string pattern: only the first occurrence of \<open>pat\<close> is
  replaced. (The replacements of the source hold no \<open>$\<close>, so they are literal.)
\<close>

fun replaceFirst :: "jsstring \<Rightarrow> jsstring \<Rightarrow> jsstring \<Rightarrow> jsstring" where
  "replaceFirst pat rep [] = (if pat = [] then rep else [])"
| "replaceFirst pat rep (c # cs) =
     (if prefix pat (c # cs) then rep @ drop (length pat) (c # cs)
      else c # replaceFirst pat rep cs)"

section \<open>Parsing one listing item (\<open>startScraping\<close>, the \<open>each\<close> callback)\<close>

subsection \<open>Rating\<close>

text \<open>
  \<^verbatim>\<open>
  let rating = 0;
  if (ratingText) {
    const stars = (ratingText.match(/\<star>/g) || []).length;
    const halfStar = ratingText.includes("\<onehalf>") ? 0.5 : 0;
    rating = stars + halfStar;
  }
  \<close>
  (the two glyphs are U+2605 and U+00BD). Numbers are modelled as exact reals; the values
  here are small multiples of one half, which doubles represent exactly.
\<close>

definition parseRating :: "jsstring \<Rightarrow> real" where
  "parseRating ratingText =
     (if ratingText \<noteq> [] then
        (let stars = length (filter (\<lambda>c. c = STAR) ratingText);
             halfStar = (if HALF \<in> set ratingText then 1 / 2 else 0)
         in real stars + halfStar)
      else 0)"

text \<open>
  \<open>ratingText\<close> is the text of \<open>.poster-viewingdata .rating\<close>, trimmed; the text of an
  absent element is the empty string.
\<close>

definition ratingOfText :: "jsstring \<Rightarrow> real" where
  "ratingOfText raw = parseRating (trim raw)"

subsection \<open>Name and year\<close>

text \<open>
  \<open>nameWithYear.match(/\s\((\d{4})\)$/)\<close>: the pattern has seven characters and is
  anchored at the end of the input, so it can only match the last seven code units.
  The result is the pair of the whole match and of group 1.
\<close>

definition yearMatch :: "jsstring \<Rightarrow> (jsstring \<times> jsstring) option" where
  "yearMatch s =
     (case drop (length s - 7) s of
        [w, l, d1, d2, d3, d4, r] \<Rightarrow>
          if isSpace w \<and> l = LPAREN \<and> isDigit d1 \<and> isDigit d2 \<and> isDigit d3 \<and> isDigit d4 \<and>
             r = RPAREN
          then Some ([w, l, d1, d2, d3, d4, r], [d1, d2, d3, d4])
          else None
      | _ \<Rightarrow> None)"

text \<open>
  \<^verbatim>\<open>
  let name = nameWithYear;
  let year = null;
  const yearMatch = nameWithYear.match(/\s\((\d{4})\)$/);
  if (yearMatch) {
    year = yearMatch[1];
    name = nameWithYear.replace(yearMatch[0], "").trim();
  }
  \<close>
\<close>

definition parseNameYear :: "jsstring \<Rightarrow> jsstring \<times> jsstring option" where
  "parseNameYear nameWithYear =
     (case yearMatch nameWithYear of
        None \<Rightarrow> (nameWithYear, None)
      | Some (m0, m1) \<Rightarrow> (trim (replaceFirst m0 [] nameWithYear), Some m1))"

subsection \<open>Attribute values\<close>

text \<open>
  \<open>$dataContainer.data("item-name")\<close> is \<open>undefined\<close> when the attribute is missing.
  Cheerio converts an attribute text that reads as a number, a boolean, \<open>null\<close> or a
  JSON object to that value, so the result need not be a string: \<open>NonText t r\<close> is such
  a value, with its truthiness \<open>t\<close> and its rendering \<open>r\<close> in a template literal.
\<close>

datatype dataval = Absent | Text jsstring | NonText bool jsstring

fun truthy :: "dataval \<Rightarrow> bool" where
  "truthy Absent = False"
| "truthy (Text s) = (s \<noteq> [])"
| "truthy (NonText t r) = t"

fun render :: "dataval \<Rightarrow> jsstring" where
  "render Absent = js ''undefined''"
| "render (Text s) = s"
| "render (NonText t r) = r"

datatype jserror = JSError (message: jsstring)

record film =
  Name :: jsstring
  Year :: "jsstring option"
  Letterboxd_URI :: jsstring
  Rating :: real

text \<open>
  One \<open>li.griditem\<close>: whether it holds a \<open>div.react-component\<close>, that element's
  \<open>data-item-name\<close> and \<open>data-item-slug\<close>, and the text of its rating element.
\<close>

record griditem =
  hasDataContainer :: bool
  itemName :: dataval
  itemSlug :: dataval
  ratingRaw :: jsstring

datatype item_result = Skip | Push film | Raise jserror

text \<open>
  The body of \<open>filmsOnPage.each\<close>. A truthy \<open>nameWithYear\<close> that is not a string has no
  \<open>match\<close> method: the call raises a TypeError, which leaves the callback and the loop.
\<close>

definition eachFilm :: "griditem \<Rightarrow> item_result" where
  "eachFilm el =
     (if \<not> hasDataContainer el then Skip
      else
        let nameWithYear = itemName el; slug = itemSlug el in
        if \<not> truthy nameWithYear \<or> \<not> truthy slug then Skip
        else
          (case nameWithYear of
             Text s \<Rightarrow>
               (let (name, year) = parseNameYear s;
                    rating = ratingOfText (ratingRaw el)
                in Push \<lparr>Name = name, Year = year,
                      Letterboxd_URI = js ''https://letterboxd.com'' @ render slug,
                      Rating = rating\<rparr>)
           | _ \<Rightarrow> Raise (JSError (js ''nameWithYear.match is not a function''))))"

section \<open>\<open>parseInt\<close>\<close>

text \<open>
  \<open>parseInt(text)\<close> without a radix: leading white space is skipped, then an optional
  sign, then an optional \<open>0x\<close>/\<open>0X\<close> (radix 16, else 10), then the longest run of digits
  of the radix; no digit gives \<open>NaN\<close>, here \<open>None\<close>. The result is modelled as an exact
  integer.
\<close>

definition digitVal :: "jschar \<Rightarrow> nat option" where
  "digitVal c =
     (if 0x30 \<le> c \<and> c \<le> 0x39 then Some (unat c - 48)
      else if 0x61 \<le> c \<and> c \<le> 0x7A then Some (unat c - 87)
      else if 0x41 \<le> c \<and> c \<le> 0x5A then Some (unat c - 55)
      else None)"

definition isRadixDigit :: "nat \<Rightarrow> jschar \<Rightarrow> bool" where
  "isRadixDigit R c = (case digitVal c of Some v \<Rightarrow> v < R | None \<Rightarrow> False)"

definition radixValue :: "nat \<Rightarrow> jsstring \<Rightarrow> nat" where
  "radixValue R Z =
     foldl (\<lambda>acc c. acc * R + (case digitVal c of Some v \<Rightarrow> v | None \<Rightarrow> 0)) 0 Z"

definition parseInt :: "jsstring \<Rightarrow> int option" where
  "parseInt inputString =
     (let S = dropWhile isSpace inputString;
          sign = (case S of c # _ \<Rightarrow> (if c = 0x2D then - 1 else 1) | [] \<Rightarrow> (1::int));
          S1 = (case S of c # cs \<Rightarrow> (if c = 0x2B \<or> c = 0x2D then cs else S) | [] \<Rightarrow> S);
          hex = (case S1 of a # b # _ \<Rightarrow> a = 0x30 \<and> (b = 0x78 \<or> b = 0x58) | _ \<Rightarrow> False);
          R = (if hex then 16 else 10);
          S2 = (if hex then drop 2 S1 else S1);
          Z = takeWhile (isRadixDigit R) S2
      in if Z = [] then None else Some (sign * int (radixValue R Z)))"

section \<open>Profile extraction (\<open>scrapeProfile\<close>)\<close>

record stats =
  totalFilms :: int
  filmsThisYear :: int
  following :: int
  followers :: int

record profile =
  displayName :: jsstring
  username :: jsstring
  avatarUrl :: "jsstring option"
  location :: "jsstring option"
  bio :: "jsstring option"
  stats :: stats

text \<open>
  What the selectors of \<open>scrapeProfile\<close> read from the loaded profile page: texts
  (empty when nothing is selected) and attributes (absent when there is none).
\<close>

record profile_dom =
  displayNameText :: jsstring
  tooltipAttr :: "jsstring option"
  avatarSrc :: "jsstring option"
  locationText :: jsstring
  bioText :: jsstring
  filmsValue :: jsstring
  thisYearValue :: jsstring
  followingValue :: jsstring
  followersValue :: jsstring

text \<open>
  The awaited calls of the \<open>try\<close> block, each of which may reject:
  \<open>page.goto(profileUrl)\<close>, \<open>page.waitForSelector(".profile-summary")\<close>, and
  \<open>page.content()\<close> with \<open>cheerio.load\<close>.
\<close>

record profile_world =
  profileGoto :: "jserror option"
  profileWait :: "jserror option"
  profileContent :: "jserror + profile_dom"

subsection \<open>Avatar URL\<close>

text \<open>
  The pattern \<open>/\/avtr-\d+-\d+-\d+-\d+-crop/\<close> tried at the start of \<open>s\<close>; the result is
  the text after the match. Each \<open>\d+\<close> is followed by \<open>-\<close>, which is no digit, so the only
  run of digits that can match is the longest one.
\<close>

definition matchLit :: "jsstring \<Rightarrow> jsstring \<Rightarrow> jsstring option" where
  "matchLit lit s = (if prefix lit s then Some (drop (length lit) s) else None)"

definition matchDigits :: "jsstring \<Rightarrow> jsstring option" where
  "matchDigits s = (if takeWhile isDigit s = [] then None else Some (dropWhile isDigit s))"

definition matchCrop :: "jsstring \<Rightarrow> jsstring option" where
  "matchCrop s =
     matchLit (js ''/avtr-'') s \<bind> matchDigits \<bind> matchLit (js ''-'') \<bind>
     matchDigits \<bind> matchLit (js ''-'') \<bind>
     matchDigits \<bind> matchLit (js ''-'') \<bind>
     matchDigits \<bind> matchLit (js ''-crop'')"

text \<open>
  \<open>avatarUrl.replace(/\/avtr-\d+-\d+-\d+-\d+-crop/, "/avtr-0-1000-0-1000-crop")\<close>: the
  pattern has no \<open>g\<close> flag, so the leftmost match alone is replaced.
\<close>

fun replaceCrop :: "jsstring \<Rightarrow> jsstring" where
  "replaceCrop [] = []"
| "replaceCrop (c # cs) =
     (case matchCrop (c # cs) of
        Some rest \<Rightarrow> js ''/avtr-0-1000-0-1000-crop'' @ rest
      | None \<Rightarrow> c # replaceCrop cs)"

text \<open>
  \<^verbatim>\<open>
  let avatarUrl = $(".profile-avatar .avatar img").attr("src");
  if (avatarUrl) { avatarUrl = avatarUrl.replace(...); }
  \<close>
  An absent attribute stays absent, and the empty string is falsy.
\<close>

definition rewriteAvatar :: "jsstring option \<Rightarrow> jsstring option" where
  "rewriteAvatar src =
     (case src of
        None \<Rightarrow> None
      | Some url \<Rightarrow> if url \<noteq> [] then Some (replaceCrop url) else Some url)"

subsection \<open>The other fields\<close>

text \<open>\<open>text().trim() || null\<close>\<close>

definition textOrNull :: "jsstring \<Rightarrow> jsstring option" where
  "textOrNull t = (if trim t \<noteq> [] then Some (trim t) else None)"

text \<open>\<open>parseInt(text().trim().replace(/,/g, "")) || 0\<close>\<close>

definition parseStat :: "jsstring \<Rightarrow> int" where
  "parseStat t =
     (case parseInt (filter (\<lambda>c. c \<noteq> 0x2C) (trim t)) of
        Some n \<Rightarrow> n
      | None \<Rightarrow> 0)"

definition extractProfile :: "profile_dom \<Rightarrow> jsstring \<Rightarrow> profile" where
  "extractProfile doc user =
     \<lparr>displayName = trim (displayNameText doc),
      username = (case tooltipAttr doc of
                    Some t \<Rightarrow> if t \<noteq> [] then t else user
                  | None \<Rightarrow> user),
      avatarUrl = rewriteAvatar (avatarSrc doc),
      location = textOrNull (locationText doc),
      bio = textOrNull (bioText doc),
      stats = \<lparr>totalFilms = parseStat (filmsValue doc),
               filmsThisYear = parseStat (thisYearValue doc),
               following = parseStat (followingValue doc),
               followers = parseStat (followersValue doc)\<rparr>\<rparr>"

text \<open>The \<open>try\<close> block of \<open>scrapeProfile\<close>: \<open>Inl\<close> is an exception leaving it.\<close>

definition scrapeProfileTry :: "profile_world \<Rightarrow> jsstring \<Rightarrow> jserror + profile" where
  "scrapeProfileTry w user =
     (case profileGoto w of
        Some e \<Rightarrow> Inl e
      | None \<Rightarrow>
          (case profileWait w of
             Some e \<Rightarrow> Inl e
           | None \<Rightarrow>
               (case profileContent w of
                  Inl e \<Rightarrow> Inl e
                | Inr doc \<Rightarrow> Inr (extractProfile doc user))))"

text \<open>
  The whole function: the \<open>catch\<close> block logs and returns the fallback object. The
  result is a sum so that a rejection of \<open>scrapeProfile\<close> itself would be a value \<open>Inl\<close>.
\<close>

definition scrapeProfile :: "profile_world \<Rightarrow> jsstring \<Rightarrow> jserror + profile" where
  "scrapeProfile w user =
     (case scrapeProfileTry w user of
        Inr p \<Rightarrow> Inr p
      | Inl e \<Rightarrow>
          Inr \<lparr>displayName = user, username = user, avatarUrl = None, location = None,
               bio = None,
               stats = \<lparr>totalFilms = 0, filmsThisYear = 0, following = 0, followers = 0\<rparr>\<rparr>)"

section \<open>Jobs\<close>

datatype status = Pending | InProgress | Completed | Failed

text \<open>
  The object stored under a job id. The handler creates it without an \<open>error\<close> field;
  an absent field reads as \<open>undefined\<close>, here \<open>None\<close>.
\<close>

record job =
  status :: status
  data :: "film list"
  profileData :: "profile option"
  progress :: real
  totalPages :: int
  error :: "jsstring option"

definition newJob :: job where
  "newJob = \<lparr>status = Pending, data = [], profileData = None, progress = 0, totalPages = 1,
             error = None\<rparr>"

text \<open>
  \<open>startScraping\<close> mutates the job object in place, and a poll may read it between any
  two awaited calls. A run is the current job together with the job as it was before
  each assignment, newest first; every assignment of the source goes through \<open>upd\<close>.
\<close>

type_synonym run = "job \<times> job list"

definition cur :: "run \<Rightarrow> job" where
  "cur r = fst r"

definition states :: "run \<Rightarrow> job list" where
  "states r = fst r # snd r"

definition trace :: "run \<Rightarrow> job list" where
  "trace r = rev (states r)"

definition upd :: "(job \<Rightarrow> job) \<Rightarrow> run \<Rightarrow> run" where
  "upd f r = (f (fst r), fst r # snd r)"

section \<open>The crawl (\<open>startScraping\<close>)\<close>

text \<open>
  \<open>filmsOnPage.each(...)\<close>: the callback runs on the items in order and ends with
  \<open>job.data.push(filmData)\<close>; an exception raised in it ends the loop with the records
  pushed so far in place.
\<close>

fun eachLoop :: "griditem list \<Rightarrow> run \<Rightarrow> jserror option \<times> run" where
  "eachLoop [] r = (None, r)"
| "eachLoop (el # els) r =
     (case eachFilm el of
        Skip \<Rightarrow> eachLoop els r
      | Raise e \<Rightarrow> (Some e, r)
      | Push filmData \<Rightarrow> eachLoop els (upd (\<lambda>j. j\<lparr>data := data j @ [filmData]\<rparr>) r))"

text \<open>
  What one iteration of the page loop meets: \<open>PageThrows e\<close> when \<open>page.goto\<close> (for
  pages after the first), \<open>page.evaluate\<close> or \<open>page.$eval\<close> rejects; \<open>NoGrid\<close> when the
  page has no \<open>ul.grid\<close>; otherwise the \<open>li.griditem\<close> elements of the grid.
\<close>

datatype page_world = PageThrows jserror | NoGrid | Grid "griditem list"

text \<open>
  \<^verbatim>\<open>
  for (let currentPage = 1; currentPage <= totalPages; currentPage++) {
    ... if (!posterListExists) { continue; }
    ... filmsOnPage.each(...);
    job.progress = currentPage / totalPages;
    await new Promise((res) => setTimeout(res, 500));
  }
  \<close>
  The quotient is modelled as an exact real.
\<close>

function pageLoop :: "(int \<Rightarrow> page_world) \<Rightarrow> int \<Rightarrow> int \<Rightarrow> run \<Rightarrow> jserror option \<times> run" where
  "pageLoop pages totalPages' currentPage r =
     (if currentPage \<le> totalPages' then
        (case pages currentPage of
           PageThrows e \<Rightarrow> (Some e, r)
         | NoGrid \<Rightarrow> pageLoop pages totalPages' (currentPage + 1) r
         | Grid filmsOnPage \<Rightarrow>
             (case eachLoop filmsOnPage r of
                (Some e, r1) \<Rightarrow> (Some e, r1)
              | (None, r1) \<Rightarrow>
                  pageLoop pages totalPages' (currentPage + 1)
                    (upd (\<lambda>j. j\<lparr>progress := real_of_int currentPage / real_of_int totalPages'\<rparr>) r1)))
      else (None, r))"
  by pat_completeness auto
termination
  by (relation "measure (\<lambda>(pages, totalPages', currentPage, r). nat (totalPages' + 1 - currentPage))") auto

declare pageLoop.simps [simp del]

text \<open>
  \<^verbatim>\<open>
  let totalPages = 1;
  const pageItems = $(".paginate-pages li a");
  if (pageItems.length) {
    const lastPageText = pageItems.last().text().trim();
    const parsedPage = parseInt(lastPageText);
    if (!isNaN(parsedPage)) totalPages = parsedPage;
  }
  \<close>
  \<open>pageItems\<close> is given by the texts of the selected links, in document order.
\<close>

definition computeTotalPages :: "jsstring list \<Rightarrow> int" where
  "computeTotalPages pageItems =
     (if pageItems \<noteq> [] then
        (let lastPageText = trim (last pageItems) in
         case parseInt lastPageText of
           Some parsedPage \<Rightarrow> parsedPage
         | None \<Rightarrow> 1)
      else 1)"

text \<open>
  What the awaited calls of one run of \<open>startScraping\<close> meet: \<open>launch\<close> stands for
  \<open>puppeteer.launch\<close>, \<open>browser.newPage\<close> and \<open>page.setUserAgent\<close>; \<open>filmsGoto\<close> for
  \<open>page.goto(filmsUrl)\<close>; \<open>filmsContent\<close> for \<open>page.content()\<close> with \<open>cheerio.load\<close>,
  giving the texts of the pagination links. The rejection of
  \<open>page.waitForSelector("ul.grid")\<close> is caught on the spot and changes nothing.
\<close>

record world =
  launch :: "jserror option"
  profileWorld :: profile_world
  filmsGoto :: "jserror option"
  filmsContent :: "jserror + jsstring list"
  pageWorld :: "int \<Rightarrow> page_world"

text \<open>The \<open>try\<close> block of \<open>startScraping\<close>, with the exception that left it, if any.\<close>

definition startScrapingTry :: "world \<Rightarrow> jsstring \<Rightarrow> run \<Rightarrow> jserror option \<times> run" where
  "startScrapingTry w user r0 =
     (let r1 = upd (\<lambda>j. j\<lparr>status := InProgress\<rparr>) r0 in
      case launch w of
        Some e \<Rightarrow> (Some e, r1)
      | None \<Rightarrow>
          (case scrapeProfile (profileWorld w) user of
             Inl e \<Rightarrow> (Some e, r1)
           | Inr p \<Rightarrow>
               (let r2 = upd (\<lambda>j. j\<lparr>profileData := Some p\<rparr>) r1 in
                case filmsGoto w of
                  Some e \<Rightarrow> (Some e, r2)
                | None \<Rightarrow>
                    (case filmsContent w of
                       Inl e \<Rightarrow> (Some e, r2)
                     | Inr pageItems \<Rightarrow>
                         (let totalPages' = computeTotalPages pageItems;
                              r3 = upd (\<lambda>j. j\<lparr>totalPages := totalPages'\<rparr>) r2
                          in case pageLoop (pageWorld w) totalPages' 1 r3 of
                               (Some e, r4) \<Rightarrow> (Some e, r4)
                             | (None, r4) \<Rightarrow>
                                 (None, upd (\<lambda>j. j\<lparr>status := Completed\<rparr>) r4))))))"

text \<open>
  \<^verbatim>\<open>
  } catch (error) {
    job.status = "failed";
    job.error = error.message;
  \<close>
\<close>

definition startScraping :: "world \<Rightarrow> jsstring \<Rightarrow> run \<Rightarrow> run" where
  "startScraping w user r0 =
     (case startScrapingTry w user r0 of
        (None, r) \<Rightarrow> r
      | (Some e, r) \<Rightarrow>
          upd (\<lambda>j. j\<lparr>error := Some (message e)\<rparr>) (upd (\<lambda>j. j\<lparr>status := Failed\<rparr>) r))"

text \<open>The life of one job, from the object the submission handler creates.\<close>

definition runJob :: "world \<Rightarrow> jsstring \<Rightarrow> run" where
  "runJob w user = startScraping w user (newJob, [])"

section \<open>The job store and the two handlers\<close>

type_synonym store = "jsstring \<rightharpoonup> job"

text \<open>The decimal digits of \<open>Date.now()\<close>, as the template literal renders them.\<close>

fun dec :: "nat \<Rightarrow> jsstring" where
  "dec n = (if n < 10 then [of_nat (48 + n)] else dec (n div 10) @ [of_nat (48 + n mod 10)])"

declare dec.simps [simp del]

datatype submit_reply =
  Started (reply_jobId: jsstring) (reply_status: status) (reply_message: jsstring)
| BadRequest jsstring

text \<open>
  The POST handler, with the clock reading \<open>now\<close> of \<open>Date.now()\<close>. The call
  \<open>startScraping(username, jobId)\<close> is not awaited; it runs up to its first \<open>await\<close>,
  that is through \<open>job.status = "in-progress"\<close>, before the handler returns.
\<close>

definition postHandler :: "nat \<Rightarrow> jsstring \<Rightarrow> store \<Rightarrow> submit_reply \<times> store" where
  "postHandler now user scrapingJobs =
     (if user = [] then (BadRequest (js ''Username is required.''), scrapingJobs)
      else
        let jobId = js ''job_'' @ dec now;
            jobs1 = scrapingJobs(jobId \<mapsto> newJob);
            jobs2 = jobs1(jobId \<mapsto> newJob\<lparr>status := InProgress\<rparr>)
        in (Started jobId Pending (js ''Scraping started''), jobs2))"

record status_view =
  view_status :: status
  view_progress :: real
  view_totalPages :: int
  view_data :: "film list"
  view_profileData :: "profile option"
  view_error :: "jsstring option"

datatype status_reply = StatusOk status_view | InvalidJob jsstring

text \<open>
  \<^verbatim>\<open>
  if (!jobId || !scrapingJobs.has(jobId)) { return reply.code(400).send(...); }
  const job = scrapingJobs.get(jobId);
  return { status: job.status, progress: job.progress, totalPages: job.totalPages,
           data: job.status === "completed" ? job.data : [],
           profileData: job.profileData, error: job.error };
  \<close>
\<close>

definition getHandler :: "jsstring \<Rightarrow> store \<Rightarrow> status_reply" where
  "getHandler jobId scrapingJobs =
     (if jobId = [] then InvalidJob (js ''Invalid job ID'')
      else
        case scrapingJobs jobId of
          None \<Rightarrow> InvalidJob (js ''Invalid job ID'')
        | Some job \<Rightarrow>
            StatusOk \<lparr>view_status = status job, view_progress = progress job,
                      view_totalPages = totalPages job,
                      view_data = (if status job = Completed then data job else []),
                      view_profileData = profileData job, view_error = error job\<rparr>)"

section \<open>The crop pattern, as a set of strings\<close>

text \<open>
  The strings the pattern \<open>\/avtr-\d+-\d+-\d+-\d+-crop\<close> denotes, written from the pattern
  and not from the matcher: four non-empty runs of digits between the literal parts.
\<close>

definition digitRun :: "jsstring \<Rightarrow> bool" where
  "digitRun d = (d \<noteq> [] \<and> list_all isDigit d)"

definition cropSegment :: "jsstring \<Rightarrow> bool" where
  "cropSegment seg =
     (\<exists>d1 d2 d3 d4. digitRun d1 \<and> digitRun d2 \<and> digitRun d3 \<and> digitRun d4 \<and>
        seg = js ''/avtr-'' @ d1 @ js ''-'' @ d2 @ js ''-'' @ d3 @ js ''-'' @ d4 @ js ''-crop'')"

text \<open>Whether the pattern matches somewhere in \<open>s\<close>, by trying every position.\<close>

fun hasCrop :: "jsstring \<Rightarrow> bool" where
  "hasCrop [] = False"
| "hasCrop (c # cs) = (matchCrop (c # cs) \<noteq> None \<or> hasCrop cs)"

section \<open>Auxiliary notions\<close>

text \<open>A progress value that is 0 or a page number of the job over its page count.\<close>

definition fraction :: "job \<Rightarrow> bool" where
  "fraction j \<longleftrightarrow> progress j = 0 \<or>
     (\<exists>k. 1 \<le> k \<and> k \<le> totalPages j \<and> progress j = real_of_int k / real_of_int (totalPages j))"

text \<open>
  The pages whose iteration reaches the assignment of the progress, described apart from
  the loop: an iteration raises when the page cannot be loaded or read, or when one of
  its items raises; the loop runs through the pages from the counter to the page count
  up to the first one that raises, and of these the pages with a grid are the ones that
  assign.
\<close>

definition itemRaises :: "griditem \<Rightarrow> bool" where
  "itemRaises el = (case eachFilm el of Raise e \<Rightarrow> True | _ \<Rightarrow> False)"

definition pageRaises :: "page_world \<Rightarrow> bool" where
  "pageRaises pg =
     (case pg of PageThrows e \<Rightarrow> True | NoGrid \<Rightarrow> False | Grid els \<Rightarrow> list_ex itemRaises els)"

definition pageCompletes :: "page_world \<Rightarrow> bool" where
  "pageCompletes pg =
     (case pg of PageThrows e \<Rightarrow> False | NoGrid \<Rightarrow> False | Grid els \<Rightarrow> \<not> list_ex itemRaises els)"

definition writtenPages :: "(int \<Rightarrow> page_world) \<Rightarrow> int \<Rightarrow> int \<Rightarrow> int list" where
  "writtenPages pages T c =
     filter (\<lambda>k. pageCompletes (pages k)) (takeWhile (\<lambda>k. \<not> pageRaises (pages k)) [c..T])"

text \<open>
  Sample inputs: a grid item for \<open>Arrival (2016)\<close> rated four stars, one with six star
  glyphs, a profile page that times out, and a listing whose pagination ends with \<open>2\<close>,
  with that item on its first page.
\<close>

abbreviation arrivalItem :: griditem where
  "arrivalItem \<equiv> \<lparr>hasDataContainer = True, itemName = Text (js ''Arrival (2016)''),
     itemSlug = Text (js ''/film/arrival-2016/''), ratingRaw = [STAR, STAR, STAR, STAR]\<rparr>"

abbreviation sixStarItem :: griditem where
  "sixStarItem \<equiv> \<lparr>hasDataContainer = True, itemName = Text (js ''Arrival (2016)''),
     itemSlug = Text (js ''/film/arrival-2016/''),
     ratingRaw = [STAR, STAR, STAR, STAR, STAR, STAR]\<rparr>"

abbreviation noProfile :: profile_world where
  "noProfile \<equiv> \<lparr>profileGoto = Some (JSError (js ''timeout'')), profileWait = None,
     profileContent = Inl (JSError [])\<rparr>"

abbreviation twoPages :: "griditem \<Rightarrow> page_world \<Rightarrow> world" where
  "twoPages first second \<equiv> \<lparr>launch = None, profileWorld = noProfile, filmsGoto = None,
     filmsContent = Inr [js ''1'', js ''2''],
     pageWorld = (\<lambda>n. if n = 1 then Grid [first] else second)\<rparr>"

section \<open>Facts about strings\<close>

lemma filter_dropWhile_disj:
  "(\<And>c. P c \<Longrightarrow> \<not> Q c) \<Longrightarrow> filter P (dropWhile Q s) = filter P s"
  by (induction s) auto

lemma filter_trim:
  assumes "\<And>c. P c \<Longrightarrow> \<not> isSpace c"
  shows "filter P (trim s) = filter P s"
proof -
  have "filter P (trim s) = rev (filter P (dropWhile isSpace (rev (dropWhile isSpace s))))"
    by (simp add: trim_def rev_filter)
  also have "\<dots> = rev (filter P (rev (dropWhile isSpace s)))"
    using assms by (simp add: filter_dropWhile_disj)
  also have "\<dots> = filter P (dropWhile isSpace s)"
    by (simp add: rev_filter)
  also have "\<dots> = filter P s"
    using assms by (simp add: filter_dropWhile_disj)
  finally show ?thesis .
qed

lemma mem_dropWhile: "\<not> Q x \<Longrightarrow> x \<in> set (dropWhile Q s) \<longleftrightarrow> x \<in> set s"
  by (induction s) auto

lemma mem_trim: "\<not> isSpace x \<Longrightarrow> x \<in> set (trim s) \<longleftrightarrow> x \<in> set s"
  by (simp add: trim_def mem_dropWhile)

lemma STAR_not_space: "\<not> isSpace STAR"
  by (simp add: isSpace_def)

lemma HALF_not_space: "\<not> isSpace HALF"
  by (simp add: isSpace_def)

lemma all_dropWhile: "(\<forall>x\<in>set (dropWhile P s). P x) \<longleftrightarrow> (\<forall>x\<in>set s. P x)"
  by (induction s) auto

lemma trim_Nil_iff: "trim s = [] \<longleftrightarrow> (\<forall>c\<in>set s. isSpace c)"
  by (simp add: trim_def dropWhile_eq_Nil_conv all_dropWhile)

lemma filter_STAR_trim: "filter (\<lambda>c. c = STAR) (trim s) = filter (\<lambda>c. c = STAR) s"
  by (rule filter_trim) (simp add: isSpace_def)

lemma count_list_filter: "count_list s x = length (filter (\<lambda>c. c = x) s)"
  by (induction s) auto

section \<open>The rating of an item\<close>

lemma ratingOfText_count:
  "ratingOfText raw = real (count_list raw STAR) + (if HALF \<in> set raw then 1 / 2 else 0)"
proof (cases "trim raw = []")
  case True
  then have sp: "\<forall>c\<in>set raw. isSpace c"
    by (simp add: trim_Nil_iff)
  then have "HALF \<notin> set raw"
    using HALF_not_space by blast
  moreover have "filter (\<lambda>c. c = STAR) raw = []"
    using sp STAR_not_space by (auto simp: filter_empty_conv)
  ultimately show ?thesis
    using True by (simp add: ratingOfText_def parseRating_def count_list_filter)
next
  case False
  then show ?thesis
    by (simp add: ratingOfText_def parseRating_def Let_def count_list_filter
        filter_STAR_trim mem_trim HALF_not_space)
qed

text \<open>
  C3. The rating of a rating text is the number of its full-star glyphs, plus one half
  if it holds a half-star glyph; the empty (or absent) text has rating 0, three stars
  and a half have 3.5, and five stars have 5.
\<close>

theorem rating_parse:
  "ratingOfText raw = real (count_list raw STAR) + (if HALF \<in> set raw then 1 / 2 else 0)
   \<and> ratingOfText [] = 0
   \<and> ratingOfText [STAR, STAR, STAR, HALF] = 7 / 2
   \<and> ratingOfText [STAR, STAR, STAR, STAR, STAR] = 5"
proof -
  have e: "ratingOfText [] = 0"
    by (simp add: ratingOfText_def parseRating_def trim_def)
  have a: "ratingOfText [STAR, STAR, STAR, HALF] = 7 / 2"
    by (simp add: ratingOfText_def parseRating_def trim_def isSpace_def)
  have b: "ratingOfText [STAR, STAR, STAR, STAR, STAR] = 5"
    by (simp add: ratingOfText_def parseRating_def trim_def isSpace_def)
  show ?thesis
    by (rule conjI [OF ratingOfText_count conjI [OF e conjI [OF a b]]])
qed

section \<open>The name and the year of an item\<close>

lemma yearMatch_append:
  "yearMatch (p @ [w, l, d1, d2, d3, d4, r]) =
     (if isSpace w \<and> l = LPAREN \<and> isDigit d1 \<and> isDigit d2 \<and> isDigit d3 \<and> isDigit d4 \<and> r = RPAREN
      then Some ([w, l, d1, d2, d3, d4, r], [d1, d2, d3, d4]) else None)"
  by (simp add: yearMatch_def)

lemma yearMatch_SomeD:
  assumes "yearMatch s = Some (m0, m1)"
  shows "\<exists>p w d1 d2 d3 d4. s = p @ [w, LPAREN, d1, d2, d3, d4, RPAREN] \<and> isSpace w \<and>
           isDigit d1 \<and> isDigit d2 \<and> isDigit d3 \<and> isDigit d4 \<and>
           m0 = [w, LPAREN, d1, d2, d3, d4, RPAREN] \<and> m1 = [d1, d2, d3, d4]"
proof -
  from assms obtain w l d1 d2 d3 d4 r where
    d: "drop (length s - 7) s = [w, l, d1, d2, d3, d4, r]"
    and c: "isSpace w \<and> l = LPAREN \<and> isDigit d1 \<and> isDigit d2 \<and> isDigit d3 \<and> isDigit d4 \<and> r = RPAREN"
    and m: "m0 = [w, l, d1, d2, d3, d4, r]" "m1 = [d1, d2, d3, d4]"
    by (auto simp: yearMatch_def split: list.splits if_splits)
  have "s = take (length s - 7) s @ drop (length s - 7) s"
    by simp
  with d have "s = take (length s - 7) s @ [w, l, d1, d2, d3, d4, r]"
    by simp
  with c m show ?thesis by blast
qed

lemma replaceFirst_last_occurrence:
  assumes "pat \<noteq> []" and "\<And>a b. p @ pat = a @ pat @ b \<Longrightarrow> b = []"
  shows "replaceFirst pat [] (p @ pat) = p"
  using assms(2)
proof (induction p)
  case Nil
  with assms(1) show ?case
    by (cases pat) simp_all
next
  case (Cons c p)
  have np: "\<not> prefix pat (c # p @ pat)"
  proof
    assume "prefix pat (c # p @ pat)"
    then obtain b where b: "c # p @ pat = pat @ b"
      by (auto simp: prefix_def)
    then have "(c # p) @ pat = [] @ pat @ b" by simp
    then have "b = []" by (rule Cons.prems)
    with b show False by simp
  qed
  have "replaceFirst pat [] (p @ pat) = p"
  proof (rule Cons.IH)
    fix a b assume "p @ pat = a @ pat @ b"
    then have "(c # p) @ pat = (c # a) @ pat @ b" by simp
    then show "b = []" by (rule Cons.prems)
  qed
  with np show ?case by simp
qed

text \<open>
  C10. The year is extracted exactly when the combined string ends with a white-space
  character followed by a parenthesised run of exactly four digits; otherwise the year is
  null and the name is the combined string, unmodified. So it is for \<open>Arrival(2016)\<close>
  (no space) and \<open>Movie (99)\<close> (two digits).
\<close>

theorem year_needs_space_and_four_digits:
  "(snd (parseNameYear s) \<noteq> None \<longleftrightarrow>
      (\<exists>p w d1 d2 d3 d4. s = p @ [w, LPAREN, d1, d2, d3, d4, RPAREN] \<and> isSpace w \<and>
         isDigit d1 \<and> isDigit d2 \<and> isDigit d3 \<and> isDigit d4))
   \<and> (snd (parseNameYear s) = None \<longrightarrow> fst (parseNameYear s) = s)
   \<and> parseNameYear (js ''Arrival(2016)'') = (js ''Arrival(2016)'', None)
   \<and> parseNameYear (js ''Movie (99)'') = (js ''Movie (99)'', None)"
proof -
  have a: "snd (parseNameYear s) \<noteq> None \<longleftrightarrow>
      (\<exists>p w d1 d2 d3 d4. s = p @ [w, LPAREN, d1, d2, d3, d4, RPAREN] \<and> isSpace w \<and>
         isDigit d1 \<and> isDigit d2 \<and> isDigit d3 \<and> isDigit d4)" (is "?L \<longleftrightarrow> ?R")
  proof
    assume ?L
    then obtain m0 m1 where "yearMatch s = Some (m0, m1)"
      by (auto simp: parseNameYear_def split: option.splits)
    from yearMatch_SomeD [OF this] show ?R by blast
  next
    assume ?R
    then obtain p w d1 d2 d3 d4 where "s = p @ [w, LPAREN, d1, d2, d3, d4, RPAREN]"
      "isSpace w" "isDigit d1" "isDigit d2" "isDigit d3" "isDigit d4" by blast
    then show ?L
      by (simp add: parseNameYear_def yearMatch_append)
  qed
  have b: "snd (parseNameYear s) = None \<longrightarrow> fst (parseNameYear s) = s"
    by (auto simp: parseNameYear_def split: option.splits)
  have c: "parseNameYear (js ''Arrival(2016)'') = (js ''Arrival(2016)'', None)"
    by (simp add: parseNameYear_def yearMatch_def js_def isSpace_def)
  have d: "parseNameYear (js ''Movie (99)'') = (js ''Movie (99)'', None)"
    by (simp add: parseNameYear_def yearMatch_def js_def isSpace_def isDigit_def)
  show ?thesis
    by (rule conjI [OF a conjI [OF b conjI [OF c d]]])
qed

text \<open>The statement at \<open>Movie (99)\<close>.\<close>

theorem year_needs_space_and_four_digits_witness:
  "snd (parseNameYear (js ''Movie (99)'')) = None \<and> fst (parseNameYear (js ''Movie (99)'')) = js ''Movie (99)''
   \<and> \<not> (\<exists>p w d1 d2 d3 d4. js ''Movie (99)'' = p @ [w, LPAREN, d1, d2, d3, d4, RPAREN] \<and> isSpace w \<and>
         isDigit d1 \<and> isDigit d2 \<and> isDigit d3 \<and> isDigit d4)"
proof -
  have n: "snd (parseNameYear (js ''Movie (99)'')) = None"
    by (simp add: parseNameYear_def yearMatch_def js_def isSpace_def isDigit_def)
  from year_needs_space_and_four_digits [of "js ''Movie (99)''"] n show ?thesis
    by blast
qed

text \<open>
  C4, amended. When the combined string ends with a white-space character followed by
  \<open>(YYYY)\<close>, the year is \<open>YYYY\<close>, and, provided that this seven-character text does not
  occur earlier in the string, the name is the text before it, trimmed. When the string
  does not end that way, the year is null and the name is the string unchanged.
  \<open>Arrival (2016)\<close> gives the name \<open>Arrival\<close> and the year \<open>2016\<close>; \<open>Arrival\<close> gives no year.
\<close>

theorem name_year_split:
  "(isSpace w \<and> isDigit d1 \<and> isDigit d2 \<and> isDigit d3 \<and> isDigit d4 \<longrightarrow>
      snd (parseNameYear (p @ [w, LPAREN, d1, d2, d3, d4, RPAREN])) = Some [d1, d2, d3, d4]
      \<and> ((\<forall>a b. p @ [w, LPAREN, d1, d2, d3, d4, RPAREN] = a @ [w, LPAREN, d1, d2, d3, d4, RPAREN] @ b
              \<longrightarrow> b = [])
           \<longrightarrow> fst (parseNameYear (p @ [w, LPAREN, d1, d2, d3, d4, RPAREN])) = trim p))
   \<and> ((\<forall>p w d1 d2 d3 d4. s = p @ [w, LPAREN, d1, d2, d3, d4, RPAREN] \<longrightarrow>
          \<not> (isSpace w \<and> isDigit d1 \<and> isDigit d2 \<and> isDigit d3 \<and> isDigit d4))
        \<longrightarrow> parseNameYear s = (s, None))
   \<and> parseNameYear (js ''Arrival (2016)'') = (js ''Arrival'', Some (js ''2016''))
   \<and> parseNameYear (js ''Arrival'') = (js ''Arrival'', None)"
proof -
  let ?m = "[w, LPAREN, d1, d2, d3, d4, RPAREN]"
  have a: "isSpace w \<and> isDigit d1 \<and> isDigit d2 \<and> isDigit d3 \<and> isDigit d4 \<longrightarrow>
      snd (parseNameYear (p @ ?m)) = Some [d1, d2, d3, d4]
      \<and> ((\<forall>a b. p @ ?m = a @ ?m @ b \<longrightarrow> b = []) \<longrightarrow> fst (parseNameYear (p @ ?m)) = trim p)"
  proof (intro impI conjI)
    assume c: "isSpace w \<and> isDigit d1 \<and> isDigit d2 \<and> isDigit d3 \<and> isDigit d4"
    then show "snd (parseNameYear (p @ ?m)) = Some [d1, d2, d3, d4]"
      by (simp add: parseNameYear_def yearMatch_append)
    assume u: "\<forall>a b. p @ ?m = a @ ?m @ b \<longrightarrow> b = []"
    have "replaceFirst ?m [] (p @ ?m) = p"
      by (rule replaceFirst_last_occurrence) (use u in blast)+
    with c show "fst (parseNameYear (p @ ?m)) = trim p"
      by (simp add: parseNameYear_def yearMatch_append)
  qed
  have b: "(\<forall>p w d1 d2 d3 d4. s = p @ [w, LPAREN, d1, d2, d3, d4, RPAREN] \<longrightarrow>
          \<not> (isSpace w \<and> isDigit d1 \<and> isDigit d2 \<and> isDigit d3 \<and> isDigit d4))
        \<longrightarrow> parseNameYear s = (s, None)"
  proof
    assume h: "\<forall>p w d1 d2 d3 d4. s = p @ [w, LPAREN, d1, d2, d3, d4, RPAREN] \<longrightarrow>
          \<not> (isSpace w \<and> isDigit d1 \<and> isDigit d2 \<and> isDigit d3 \<and> isDigit d4)"
    have "yearMatch s = None"
    proof (cases "yearMatch s")
      case (Some m)
      obtain m0 m1 where "m = (m0, m1)" by (cases m)
      with Some yearMatch_SomeD [of s m0 m1] h show ?thesis by blast
    qed simp
    then show "parseNameYear s = (s, None)"
      by (simp add: parseNameYear_def)
  qed
  have c: "parseNameYear (js ''Arrival (2016)'') = (js ''Arrival'', Some (js ''2016''))"
    by (simp add: parseNameYear_def yearMatch_def js_def isSpace_def isDigit_def trim_def)
  have d: "parseNameYear (js ''Arrival'') = (js ''Arrival'', None)"
    by (simp add: parseNameYear_def yearMatch_def js_def)
  show ?thesis
    by (rule conjI [OF a conjI [OF b conjI [OF c d]]])
qed

text \<open>
  C4 as stated fails: a trailing \<open>(2016)\<close> with no white space before it is not stripped,
  and \<open>replace\<close> removes the first occurrence of the matched text, not the trailing one.
\<close>

theorem name_year_split_counterexample:
  "parseNameYear (js ''Arrival(2016)'') = (js ''Arrival(2016)'', None)
   \<and> parseNameYear (js ''A (2016) B (2016)'') = (js ''A B (2016)'', Some (js ''2016''))
   \<and> js ''A B (2016)'' \<noteq> trim (js ''A (2016) B'')"
  by (simp add: parseNameYear_def yearMatch_def js_def isSpace_def isDigit_def trim_def)

text \<open>The amended statement at \<open>Arrival (2016)\<close> and \<open>Arrival\<close>.\<close>

theorem name_year_split_witness:
  "isSpace 0x20 \<and> isDigit 0x32 \<and> isDigit 0x30 \<and> isDigit 0x31 \<and> isDigit 0x36
   \<and> snd (parseNameYear (js ''Arrival (2016)'')) = Some (js ''2016'')
   \<and> fst (parseNameYear (js ''Arrival (2016)'')) = trim (js ''Arrival'')
   \<and> parseNameYear (js ''Arrival'') = (js ''Arrival'', None)"
proof -
  let ?m = "[0x20, LPAREN, 0x32, 0x30, 0x31, 0x36, RPAREN] :: jsstring"
  let ?p = "js ''Arrival''"
  have c: "isSpace 0x20 \<and> isDigit 0x32 \<and> isDigit 0x30 \<and> isDigit 0x31 \<and> isDigit 0x36"
    by (simp add: isSpace_def isDigit_def)
  have u: "\<forall>a b. ?p @ ?m = a @ ?m @ b \<longrightarrow> b = []"
  proof (intro allI impI)
    fix a b :: jsstring
    assume e: "?p @ ?m = a @ ?m @ b"
    show "b = []"
    proof (rule ccontr)
      assume nb: "b \<noteq> []"
      from e have "length (?p @ ?m) = length (a @ ?m @ b)"
        by (rule arg_cong)
      with nb have "length a < 7"
        by (cases b) (simp_all add: js_def)
      then have l: "length a = 0 \<or> length a = 1 \<or> length a = 2 \<or> length a = 3 \<or> length a = 4
          \<or> length a = 5 \<or> length a = 6"
        by arith
      from e have "take 7 (drop (length a) (?p @ ?m)) = ?m"
        by simp
      with l show False
        by (auto simp: js_def)
    qed
  qed
  have y: "\<forall>p w d1 d2 d3 d4. js ''Arrival'' = p @ [w, LPAREN, d1, d2, d3, d4, RPAREN] \<longrightarrow>
          \<not> (isSpace w \<and> isDigit d1 \<and> isDigit d2 \<and> isDigit d3 \<and> isDigit d4)"
  proof (intro allI impI)
    fix p :: jsstring and w d1 d2 d3 d4 :: jschar
    assume "js ''Arrival'' = p @ [w, LPAREN, d1, d2, d3, d4, RPAREN]"
    then have "last (js ''Arrival'') = last (p @ [w, LPAREN, d1, d2, d3, d4, RPAREN])"
      by (rule arg_cong)
    then have False by (simp add: js_def)
    then show "\<not> (isSpace w \<and> isDigit d1 \<and> isDigit d2 \<and> isDigit d3 \<and> isDigit d4)" ..
  qed
  have pm: "?p @ ?m = js ''Arrival (2016)''" "[0x32, 0x30, 0x31, 0x36] = js ''2016''"
    by (simp_all add: js_def)
  from name_year_split [of "0x20" "0x32" "0x30" "0x31" "0x36" ?p "js ''Arrival''"] c u y
  have "snd (parseNameYear (?p @ ?m)) = Some [0x32, 0x30, 0x31, 0x36]
    \<and> fst (parseNameYear (?p @ ?m)) = trim ?p
    \<and> parseNameYear (js ''Arrival'') = (js ''Arrival'', None)"
    by blast
  with c show ?thesis
    unfolding pm by blast
qed

section \<open>The avatar rewrite and the fallback profile\<close>

lemma matchLit_Some_iff: "matchLit lit s = Some r \<longleftrightarrow> s = lit @ r"
  by (auto simp: matchLit_def prefix_def)

lemma matchDigits_SomeD:
  assumes "matchDigits s = Some r"
  shows "\<exists>d. digitRun d \<and> s = d @ r"
proof -
  from assms have ne: "takeWhile isDigit s \<noteq> []" and r: "r = dropWhile isDigit s"
    by (auto simp: matchDigits_def split: if_splits)
  have "list_all isDigit (takeWhile isDigit s)"
    by (auto simp: list_all_iff dest: set_takeWhileD)
  with ne have "digitRun (takeWhile isDigit s)"
    by (simp add: digitRun_def)
  moreover have "s = takeWhile isDigit s @ r"
    using r by simp
  ultimately show ?thesis by blast
qed

lemma matchDigits_run:
  assumes "digitRun d" and "\<not> isDigit x"
  shows "matchDigits (d @ x # r) = Some (x # r)"
proof -
  from assms(1) have ne: "d \<noteq> []" and al: "\<forall>c\<in>set d. isDigit c"
    by (simp_all add: digitRun_def list_all_iff)
  from al assms(2) have "takeWhile isDigit (d @ x # r) = d"
    by (simp add: takeWhile_append2)
  moreover from al assms(2) have "dropWhile isDigit (d @ x # r) = x # r"
    by (simp add: dropWhile_append2)
  ultimately show ?thesis
    using ne by (simp add: matchDigits_def)
qed

lemma bind_SomeD: "(m \<bind> f) = Some r \<Longrightarrow> \<exists>x. m = Some x \<and> f x = Some r"
  by (cases m) simp_all

lemma matchCrop_sound:
  assumes "matchCrop s = Some r"
  shows "\<exists>seg. cropSegment seg \<and> s = seg @ r"
proof -
  from assms [unfolded matchCrop_def]
  obtain s8 where a8: "matchLit (js ''-crop'') s8 = Some r"
    and b8: "(matchLit (js ''/avtr-'') s \<bind> matchDigits \<bind> matchLit (js ''-'') \<bind>
       matchDigits \<bind> matchLit (js ''-'') \<bind> matchDigits \<bind> matchLit (js ''-'') \<bind>
       matchDigits) = Some s8"
    by (blast dest: bind_SomeD)
  from b8 obtain s7 where a7: "matchDigits s7 = Some s8"
    and b7: "(matchLit (js ''/avtr-'') s \<bind> matchDigits \<bind> matchLit (js ''-'') \<bind>
       matchDigits \<bind> matchLit (js ''-'') \<bind> matchDigits \<bind> matchLit (js ''-'')) = Some s7"
    by (blast dest: bind_SomeD)
  from b7 obtain s6 where a6: "matchLit (js ''-'') s6 = Some s7"
    and b6: "(matchLit (js ''/avtr-'') s \<bind> matchDigits \<bind> matchLit (js ''-'') \<bind>
       matchDigits \<bind> matchLit (js ''-'') \<bind> matchDigits) = Some s6"
    by (blast dest: bind_SomeD)
  from b6 obtain s5 where a5: "matchDigits s5 = Some s6"
    and b5: "(matchLit (js ''/avtr-'') s \<bind> matchDigits \<bind> matchLit (js ''-'') \<bind>
       matchDigits \<bind> matchLit (js ''-'')) = Some s5"
    by (blast dest: bind_SomeD)
  from b5 obtain s4 where a4: "matchLit (js ''-'') s4 = Some s5"
    and b4: "(matchLit (js ''/avtr-'') s \<bind> matchDigits \<bind> matchLit (js ''-'') \<bind>
       matchDigits) = Some s4"
    by (blast dest: bind_SomeD)
  from b4 obtain s3 where a3: "matchDigits s3 = Some s4"
    and b3: "(matchLit (js ''/avtr-'') s \<bind> matchDigits \<bind> matchLit (js ''-'')) = Some s3"
    by (blast dest: bind_SomeD)
  from b3 obtain s2 where a2: "matchLit (js ''-'') s2 = Some s3"
    and b2: "(matchLit (js ''/avtr-'') s \<bind> matchDigits) = Some s2"
    by (blast dest: bind_SomeD)
  from b2 obtain s1 where a1: "matchDigits s1 = Some s2"
    and b1: "matchLit (js ''/avtr-'') s = Some s1"
    by (blast dest: bind_SomeD)
  from a1 obtain d1 where d1: "digitRun d1" "s1 = d1 @ s2"
    by (blast dest: matchDigits_SomeD)
  from a3 obtain d2 where d2: "digitRun d2" "s3 = d2 @ s4"
    by (blast dest: matchDigits_SomeD)
  from a5 obtain d3 where d3: "digitRun d3" "s5 = d3 @ s6"
    by (blast dest: matchDigits_SomeD)
  from a7 obtain d4 where d4: "digitRun d4" "s7 = d4 @ s8"
    by (blast dest: matchDigits_SomeD)
  have "s = (js ''/avtr-'' @ d1 @ js ''-'' @ d2 @ js ''-'' @ d3 @ js ''-'' @ d4 @ js ''-crop'') @ r"
    using b1 a2 a4 a6 a8 d1(2) d2(2) d3(2) d4(2)
    by (simp add: matchLit_Some_iff)
  moreover have "cropSegment (js ''/avtr-'' @ d1 @ js ''-'' @ d2 @ js ''-'' @ d3 @ js ''-'' @ d4 @ js ''-crop'')"
    unfolding cropSegment_def using d1(1) d2(1) d3(1) d4(1) by blast
  ultimately show ?thesis by blast
qed

lemma matchLit_append: "matchLit lit (lit @ r) = Some r"
  by (simp add: matchLit_Some_iff)

lemma dash_no_digit: "\<not> isDigit 0x2D"
  by (simp add: isDigit_def)

lemma js_dash: "js ''-'' = [0x2D]"
  by (simp add: js_def)

lemma js_crop: "js ''-crop'' = 0x2D # js ''crop''"
  by (simp add: js_def)

lemma matchCrop_complete:
  assumes "cropSegment seg"
  shows "matchCrop (seg @ post) = Some post"
proof -
  from assms obtain d1 d2 d3 d4 where d: "digitRun d1" "digitRun d2" "digitRun d3" "digitRun d4"
    and seg: "seg = js ''/avtr-'' @ d1 @ js ''-'' @ d2 @ js ''-'' @ d3 @ js ''-'' @ d4 @ js ''-crop''"
    unfolding cropSegment_def by blast
  have m4: "matchDigits (d4 @ js ''-crop'' @ post) = Some (js ''-crop'' @ post)"
    using matchDigits_run [OF d(4) dash_no_digit] by (simp add: js_crop)
  have m3: "matchDigits (d3 @ js ''-'' @ d4 @ js ''-crop'' @ post)
      = Some (js ''-'' @ d4 @ js ''-crop'' @ post)"
    using matchDigits_run [OF d(3) dash_no_digit] by (simp add: js_dash)
  have m2: "matchDigits (d2 @ js ''-'' @ d3 @ js ''-'' @ d4 @ js ''-crop'' @ post)
      = Some (js ''-'' @ d3 @ js ''-'' @ d4 @ js ''-crop'' @ post)"
    using matchDigits_run [OF d(2) dash_no_digit] by (simp add: js_dash)
  have m1: "matchDigits (d1 @ js ''-'' @ d2 @ js ''-'' @ d3 @ js ''-'' @ d4 @ js ''-crop'' @ post)
      = Some (js ''-'' @ d2 @ js ''-'' @ d3 @ js ''-'' @ d4 @ js ''-crop'' @ post)"
    using matchDigits_run [OF d(1) dash_no_digit] by (simp add: js_dash)
  show ?thesis
    unfolding matchCrop_def seg
    by (simp only: append_assoc matchLit_append m1 m2 m3 m4 bind.bind_lunit)
qed

lemma hasCrop_iff:
  "hasCrop s \<longleftrightarrow> (\<exists>pre seg post. s = pre @ seg @ post \<and> cropSegment seg)"
proof (induction s)
  case Nil
  have "\<not> cropSegment []"
    by (simp add: cropSegment_def js_def)
  then show ?case by auto
next
  case (Cons c cs)
  show ?case
  proof
    assume "hasCrop (c # cs)"
    then consider r where "matchCrop (c # cs) = Some r" | "hasCrop cs"
      by auto
    then show "\<exists>pre seg post. c # cs = pre @ seg @ post \<and> cropSegment seg"
    proof cases
      case 1
      then obtain seg where "cropSegment seg" "c # cs = [] @ seg @ r"
        by (auto dest: matchCrop_sound)
      then show ?thesis by blast
    next
      case 2
      with Cons.IH obtain pre seg post where "cs = pre @ seg @ post" "cropSegment seg"
        by blast
      then have "c # cs = (c # pre) @ seg @ post \<and> cropSegment seg"
        by simp
      then show ?thesis by blast
    qed
  next
    assume "\<exists>pre seg post. c # cs = pre @ seg @ post \<and> cropSegment seg"
    then obtain pre seg post where e: "c # cs = pre @ seg @ post" and sg: "cropSegment seg"
      by blast
    show "hasCrop (c # cs)"
    proof (cases pre)
      case Nil
      with e have "matchCrop (c # cs) = Some post"
        using matchCrop_complete [OF sg, of post] by simp
      then show ?thesis by simp
    next
      case (Cons x pre')
      with e have "cs = pre' @ seg @ post" by simp
      with sg Cons.IH have "hasCrop cs" by blast
      then show ?thesis by simp
    qed
  qed
qed

lemma replaceCrop_no_match: "\<not> hasCrop s \<Longrightarrow> replaceCrop s = s"
  by (induction s) auto

lemma replaceCrop_match:
  "hasCrop s \<Longrightarrow>
     \<exists>pre seg post. s = pre @ seg @ post \<and> cropSegment seg \<and>
       (\<forall>pre' seg' post'. s = pre' @ seg' @ post' \<and> cropSegment seg' \<longrightarrow> length pre \<le> length pre') \<and>
       replaceCrop s = pre @ js ''/avtr-0-1000-0-1000-crop'' @ post"
proof (induction s)
  case Nil
  then show ?case by simp
next
  case (Cons c cs)
  show ?case
  proof (cases "matchCrop (c # cs)")
    case (Some r)
    then obtain seg where "cropSegment seg" "c # cs = [] @ seg @ r"
      by (auto dest: matchCrop_sound)
    moreover have "replaceCrop (c # cs) = [] @ js ''/avtr-0-1000-0-1000-crop'' @ r"
      using Some by simp
    ultimately show ?thesis
      by (metis le0 list.size(3))
  next
    case None
    with Cons.prems have "hasCrop cs" by simp
    with Cons.IH obtain pre seg post where p: "cs = pre @ seg @ post" "cropSegment seg"
      "\<forall>pre' seg' post'. cs = pre' @ seg' @ post' \<and> cropSegment seg' \<longrightarrow> length pre \<le> length pre'"
      "replaceCrop cs = pre @ js ''/avtr-0-1000-0-1000-crop'' @ post"
      by blast
    have left: "length (c # pre) \<le> length pre'"
      if d: "c # cs = pre' @ seg' @ post'" "cropSegment seg'" for pre' seg' post'
    proof (cases pre')
      case Nil
      with d have "matchCrop (c # cs) = Some post'"
        using matchCrop_complete [OF d(2), of post'] by simp
      with None show ?thesis by simp
    next
      case (Cons x pre'')
      with d(1) have "cs = pre'' @ seg' @ post'" by simp
      with p(3) d(2) have "length pre \<le> length pre''" by blast
      with Cons show ?thesis by simp
    qed
    have "c # cs = (c # pre) @ seg @ post"
      using p(1) by simp
    moreover have "replaceCrop (c # cs) = (c # pre) @ js ''/avtr-0-1000-0-1000-crop'' @ post"
      using None p(4) by simp
    ultimately show ?thesis using p(2) left by blast
  qed
qed

text \<open>
  C9. An absent avatar source stays absent. If the crop pattern matches somewhere in the
  source, its leftmost match is replaced by \<open>/avtr-0-1000-0-1000-crop\<close> and the text before
  and after it is kept; a source the pattern does not match is returned unchanged. The
  extracted profile carries the source rewritten so.
\<close>

theorem avatar_rewrite:
  "rewriteAvatar None = None
   \<and> ((\<exists>pre seg post. s = pre @ seg @ post \<and> cropSegment seg) \<longrightarrow>
        (\<exists>pre seg post. s = pre @ seg @ post \<and> cropSegment seg \<and>
           (\<forall>pre' seg' post'. s = pre' @ seg' @ post' \<and> cropSegment seg' \<longrightarrow>
              length pre \<le> length pre') \<and>
           rewriteAvatar (Some s) = Some (pre @ js ''/avtr-0-1000-0-1000-crop'' @ post)))
   \<and> (\<not> (\<exists>pre seg post. s = pre @ seg @ post \<and> cropSegment seg) \<longrightarrow>
        rewriteAvatar (Some s) = Some s)
   \<and> (scrapeProfileTry w user = Inr p \<longrightarrow>
        (\<exists>doc. profileContent w = Inr doc \<and> avatarUrl p = rewriteAvatar (avatarSrc doc)))"
proof -
  have a: "rewriteAvatar None = None"
    by (simp add: rewriteAvatar_def)
  have b: "(\<exists>pre seg post. s = pre @ seg @ post \<and> cropSegment seg) \<longrightarrow>
        (\<exists>pre seg post. s = pre @ seg @ post \<and> cropSegment seg \<and>
           (\<forall>pre' seg' post'. s = pre' @ seg' @ post' \<and> cropSegment seg' \<longrightarrow>
              length pre \<le> length pre') \<and>
           rewriteAvatar (Some s) = Some (pre @ js ''/avtr-0-1000-0-1000-crop'' @ post))"
  proof
    assume "\<exists>pre seg post. s = pre @ seg @ post \<and> cropSegment seg"
    then have h: "hasCrop s"
      by (simp add: hasCrop_iff)
    then have "s \<noteq> []" by auto
    then have "rewriteAvatar (Some s) = Some (replaceCrop s)"
      by (simp add: rewriteAvatar_def)
    with replaceCrop_match [OF h] show "\<exists>pre seg post. s = pre @ seg @ post \<and> cropSegment seg \<and>
           (\<forall>pre' seg' post'. s = pre' @ seg' @ post' \<and> cropSegment seg' \<longrightarrow>
              length pre \<le> length pre') \<and>
           rewriteAvatar (Some s) = Some (pre @ js ''/avtr-0-1000-0-1000-crop'' @ post)"
      by simp
  qed
  have c: "\<not> (\<exists>pre seg post. s = pre @ seg @ post \<and> cropSegment seg) \<longrightarrow>
        rewriteAvatar (Some s) = Some s"
  proof
    assume "\<not> (\<exists>pre seg post. s = pre @ seg @ post \<and> cropSegment seg)"
    then have "\<not> hasCrop s"
      by (simp add: hasCrop_iff)
    then show "rewriteAvatar (Some s) = Some s"
      by (simp add: rewriteAvatar_def replaceCrop_no_match)
  qed
  have d: "scrapeProfileTry w user = Inr p \<longrightarrow>
        (\<exists>doc. profileContent w = Inr doc \<and> avatarUrl p = rewriteAvatar (avatarSrc doc))"
    by (auto simp: scrapeProfileTry_def extractProfile_def split: option.splits sum.splits)
  show ?thesis
    by (rule conjI [OF a conjI [OF b conjI [OF c d]]])
qed

lemma matchCrop_example:
  "matchCrop (js ''/avtr-0-220-0-220-crop.jpg'') = Some (js ''.jpg'')"
  by (simp add: matchCrop_def matchLit_def matchDigits_def js_def isDigit_def)

text \<open>The statement at a source with a crop segment and at one without.\<close>

theorem avatar_rewrite_witness:
  "(\<exists>pre seg post. js ''/a/avtr-0-220-0-220-crop.jpg'' = pre @ seg @ post \<and> cropSegment seg \<and>
      rewriteAvatar (Some (js ''/a/avtr-0-220-0-220-crop.jpg''))
        = Some (pre @ js ''/avtr-0-1000-0-1000-crop'' @ post))
   \<and> rewriteAvatar (Some (js ''/a/avtr-0-220-0-220-crop.jpg''))
        = Some (js ''/a/avtr-0-1000-0-1000-crop.jpg'')
   \<and> rewriteAvatar (Some (js ''/a/b.jpg'')) = Some (js ''/a/b.jpg'')
   \<and> avatarUrl (extractProfile \<lparr>displayNameText = js ''Al'', tooltipAttr = None,
         avatarSrc = Some (js ''/a/b.jpg''), locationText = [], bioText = [], filmsValue = [],
         thisYearValue = [], followingValue = [], followersValue = []\<rparr> (js ''al''))
       = Some (js ''/a/b.jpg'')"
proof -
  let ?s = "js ''/a/avtr-0-220-0-220-crop.jpg''"
  let ?doc = "\<lparr>displayNameText = js ''Al'', tooltipAttr = None,
         avatarSrc = Some (js ''/a/b.jpg''), locationText = [], bioText = [], filmsValue = [],
         thisYearValue = [], followingValue = [], followersValue = []\<rparr>"
  let ?w = "\<lparr>profileGoto = None, profileWait = None, profileContent = Inr ?doc\<rparr>"
  have "hasCrop ?s"
    using matchCrop_example by (simp add: js_def)
  then have h1: "\<exists>pre seg post. ?s = pre @ seg @ post \<and> cropSegment seg"
    by (simp add: hasCrop_iff)
  have "\<not> hasCrop (js ''/a/b.jpg'')"
    by (simp add: js_def matchCrop_def matchLit_def)
  then have h2: "\<not> (\<exists>pre seg post. js ''/a/b.jpg'' = pre @ seg @ post \<and> cropSegment seg)"
    by (simp add: hasCrop_iff)
  have h3: "scrapeProfileTry ?w (js ''al'') = Inr (extractProfile ?doc (js ''al''))"
    by (simp add: scrapeProfileTry_def)
  have e: "rewriteAvatar (Some ?s) = Some (js ''/a/avtr-0-1000-0-1000-crop.jpg'')"
    using matchCrop_example
    by (simp add: rewriteAvatar_def js_def matchCrop_def matchLit_def)
  have r1: "\<exists>pre seg post. ?s = pre @ seg @ post \<and> cropSegment seg \<and>
      rewriteAvatar (Some ?s) = Some (pre @ js ''/avtr-0-1000-0-1000-crop'' @ post)"
    using avatar_rewrite [of ?s ?w "js ''al''" "extractProfile ?doc (js ''al'')"] h1 by blast
  have r2: "rewriteAvatar (Some (js ''/a/b.jpg'')) = Some (js ''/a/b.jpg'')"
    using avatar_rewrite [of "js ''/a/b.jpg''" ?w "js ''al''" "extractProfile ?doc (js ''al'')"] h2
    by blast
  have "\<exists>doc. profileContent ?w = Inr doc \<and>
      avatarUrl (extractProfile ?doc (js ''al'')) = rewriteAvatar (avatarSrc doc)"
    using avatar_rewrite [of ?s ?w "js ''al''" "extractProfile ?doc (js ''al'')"] h3 by blast
  then have r3: "avatarUrl (extractProfile ?doc (js ''al'')) = Some (js ''/a/b.jpg'')"
    using r2 by simp
  show ?thesis
    by (rule conjI [OF r1 conjI [OF e conjI [OF r2 r3]]])
qed

text \<open>
  C7. \<open>scrapeProfile\<close> always returns a profile, and when one of its awaited calls raises
  an exception the profile is the fallback: display name and user name equal to the
  identifier, no avatar, location or bio, and four statistics equal to 0.
\<close>

theorem scrapeProfile_absorbs:
  "(\<exists>p. scrapeProfile w user = Inr p)
   \<and> ((profileGoto w \<noteq> None \<or> profileWait w \<noteq> None \<or> (\<exists>e. profileContent w = Inl e)) \<longrightarrow>
        scrapeProfile w user =
          Inr \<lparr>displayName = user, username = user, avatarUrl = None, location = None,
               bio = None,
               stats = \<lparr>totalFilms = 0, filmsThisYear = 0, following = 0, followers = 0\<rparr>\<rparr>)
   \<and> ((\<exists>e. scrapeProfileTry w user = Inl e) \<longleftrightarrow>
        (profileGoto w \<noteq> None \<or> profileWait w \<noteq> None \<or> (\<exists>e. profileContent w = Inl e)))"
  by (auto simp: scrapeProfile_def scrapeProfileTry_def split: option.splits sum.splits)

text \<open>The statement when the wait for \<open>.profile-summary\<close> times out.\<close>

theorem scrapeProfile_absorbs_witness:
  "profileWait \<lparr>profileGoto = None, profileWait = Some (JSError (js ''timeout'')),
       profileContent = Inl (JSError [])\<rparr> \<noteq> None
   \<and> scrapeProfile \<lparr>profileGoto = None, profileWait = Some (JSError (js ''timeout'')),
       profileContent = Inl (JSError [])\<rparr> (js ''alice'') =
       Inr \<lparr>displayName = js ''alice'', username = js ''alice'', avatarUrl = None,
            location = None, bio = None,
            stats = \<lparr>totalFilms = 0, filmsThisYear = 0, following = 0, followers = 0\<rparr>\<rparr>"
proof -
  let ?w = "\<lparr>profileGoto = None, profileWait = Some (JSError (js ''timeout'')),
       profileContent = Inl (JSError [])\<rparr>"
  have h: "profileWait ?w \<noteq> None" by simp
  with scrapeProfile_absorbs [of ?w "js ''alice''"] show ?thesis
    by blast
qed

section \<open>Invariants of a run\<close>

lemma states_upd: "states (upd f r) = f (cur r) # states r"
  by (simp add: states_def upd_def cur_def)

lemma cur_upd: "cur (upd f r) = f (cur r)"
  by (simp add: upd_def cur_def)

lemma cur_in_states: "cur r \<in> set (states r)"
  by (simp add: states_def cur_def)

lemma states_Cons: "states r = cur r # snd r"
  by (simp add: states_def cur_def)

text \<open>A property of runs that every push keeps is kept by the loop over the items.\<close>

lemma eachLoop_inv:
  assumes "P r"
    and "\<And>r el f. P r \<Longrightarrow> eachFilm el = Push f \<Longrightarrow> P (upd (\<lambda>j. j\<lparr>data := data j @ [f]\<rparr>) r)"
  shows "P (snd (eachLoop els r))"
  using assms(1)
proof (induction els arbitrary: r)
  case Nil
  then show ?case by simp
next
  case (Cons el els)
  show ?case
  proof (cases "eachFilm el")
    case Skip
    with Cons show ?thesis by simp
  next
    case (Push f)
    with Cons.prems have "P (upd (\<lambda>j. j\<lparr>data := data j @ [f]\<rparr>) r)"
      by (simp add: assms(2))
    then have "P (snd (eachLoop els (upd (\<lambda>j. j\<lparr>data := data j @ [f]\<rparr>) r)))"
      by (rule Cons.IH)
    with Push show ?thesis by simp
  next
    case (Raise e)
    with Cons.prems show ?thesis by simp
  qed
qed

text \<open>
  A property of the page counter and the run that the three effects of an iteration keep
  (a push, the progress assignment with the counter's step, a skipped page) holds, for
  some counter, when the page loop ends.
\<close>

lemma pageLoop_inv:
  assumes "P c r" and "1 \<le> c"
    and "\<And>c r el f. P c r \<Longrightarrow> eachFilm el = Push f \<Longrightarrow>
            P c (upd (\<lambda>j. j\<lparr>data := data j @ [f]\<rparr>) r)"
    and "\<And>c r. 1 \<le> c \<Longrightarrow> c \<le> T \<Longrightarrow> P c r \<Longrightarrow>
            P (c + 1) (upd (\<lambda>j. j\<lparr>progress := real_of_int c / real_of_int T\<rparr>) r)"
    and "\<And>c r. 1 \<le> c \<Longrightarrow> c \<le> T \<Longrightarrow> P c r \<Longrightarrow> P (c + 1) r"
  shows "\<exists>c'. P c' (snd (pageLoop pw T c r))"
  using assms
proof (induction pw T c r rule: pageLoop.induct)
  case (1 pages T c r)
  note push = "1.prems"(3) and prog = "1.prems"(4) and skip = "1.prems"(5)
  show ?case
  proof (cases "c \<le> T")
    case False
    with "1.prems"(1) show ?thesis
      by (subst pageLoop.simps) auto
  next
    case le: True
    show ?thesis
    proof (cases "pages c")
      case (PageThrows e)
      with le "1.prems"(1) show ?thesis
        by (subst pageLoop.simps) auto
    next
      case NoGrid
      from "1.prems"(1,2) le have "P (c + 1) r"
        by (simp add: skip)
      moreover from "1.prems"(2) have "1 \<le> c + 1" by simp
      ultimately have "\<exists>c'. P c' (snd (pageLoop pages T (c + 1) r))"
        using push prog skip by (rule "1.IH"(1) [OF le NoGrid])
      with le NoGrid show ?thesis
        by (subst pageLoop.simps) simp
    next
      case (Grid els)
      obtain e r1 where el: "eachLoop els r = (e, r1)"
        by (cases "eachLoop els r")
      have "P c (snd (eachLoop els r))"
        using "1.prems"(1) push by (rule eachLoop_inv)
      with el have p1: "P c r1" by simp
      show ?thesis
      proof (cases e)
        case (Some err)
        with le Grid el p1 show ?thesis
          by (subst pageLoop.simps) auto
      next
        case None
        let ?r2 = "upd (\<lambda>j. j\<lparr>progress := real_of_int c / real_of_int T\<rparr>) r1"
        from p1 le "1.prems"(2) have "P (c + 1) ?r2"
          by (simp add: prog)
        moreover from "1.prems"(2) have "1 \<le> c + 1" by simp
        ultimately have "\<exists>c'. P c' (snd (pageLoop pages T (c + 1) ?r2))"
          using push prog skip by (rule "1.IH"(2) [OF le Grid el [symmetric] None])
        with le Grid el None show ?thesis
          by (subst pageLoop.simps) simp
      qed
    qed
  qed
qed

text \<open>
  The same for a whole run of \<open>startScraping\<close>: \<open>Q\<close> holds up to the assignment of
  \<open>totalPages\<close>, \<open>P\<close> of the page count and the counter during the page loop, and \<open>R\<close> from
  the end of the \<open>try\<close> block on. The block ends early when the launch, the navigation
  to the listing root or the reading of its content fails.
\<close>

lemma startScraping_inv:
  assumes init: "Q r0"
    and Q_status: "\<And>r s. Q r \<Longrightarrow> Q (upd (\<lambda>j. j\<lparr>status := s\<rparr>) r)"
    and Q_profile: "\<And>r p. Q r \<Longrightarrow> Q (upd (\<lambda>j. j\<lparr>profileData := p\<rparr>) r)"
    and Q_total: "\<And>r items. Q r \<Longrightarrow> filmsContent w = Inr items \<Longrightarrow>
        P (computeTotalPages items) 1 (upd (\<lambda>j. j\<lparr>totalPages := computeTotalPages items\<rparr>) r)"
    and push: "\<And>T c r el f. P T c r \<Longrightarrow> eachFilm el = Push f \<Longrightarrow>
        P T c (upd (\<lambda>j. j\<lparr>data := data j @ [f]\<rparr>) r)"
    and prog: "\<And>T c r. 1 \<le> c \<Longrightarrow> c \<le> T \<Longrightarrow> P T c r \<Longrightarrow>
        P T (c + 1) (upd (\<lambda>j. j\<lparr>progress := real_of_int c / real_of_int T\<rparr>) r)"
    and skip: "\<And>T c r. 1 \<le> c \<Longrightarrow> c \<le> T \<Longrightarrow> P T c r \<Longrightarrow> P T (c + 1) r"
    and Q_R: "\<And>r. Q r \<Longrightarrow>
        launch w \<noteq> None \<or> filmsGoto w \<noteq> None \<or> (\<exists>e. filmsContent w = Inl e) \<Longrightarrow> R r"
    and P_R: "\<And>c r items. P (computeTotalPages items) c r \<Longrightarrow> launch w = None \<Longrightarrow>
        filmsGoto w = None \<Longrightarrow> filmsContent w = Inr items \<Longrightarrow> R r"
    and R_status: "\<And>r s. R r \<Longrightarrow> R (upd (\<lambda>j. j\<lparr>status := s\<rparr>) r)"
    and R_error: "\<And>r e. R r \<Longrightarrow> R (upd (\<lambda>j. j\<lparr>error := e\<rparr>) r)"
  shows "R (startScraping w user r0)"
proof -
  let ?r1 = "upd (\<lambda>j. j\<lparr>status := InProgress\<rparr>) r0"
  have q1: "Q ?r1"
    using init by (rule Q_status)
  have fin: "R (case eo of None \<Rightarrow> r
               | Some e \<Rightarrow> upd (\<lambda>j. j\<lparr>error := Some (message e)\<rparr>) (upd (\<lambda>j. j\<lparr>status := Failed\<rparr>) r))"
    if "R r" for eo r
    using that by (cases eo) (simp_all add: R_status R_error)
  have split_pair: "startScraping w user r0 =
      (case fst (startScrapingTry w user r0) of None \<Rightarrow> snd (startScrapingTry w user r0)
       | Some e \<Rightarrow> upd (\<lambda>j. j\<lparr>error := Some (message e)\<rparr>)
           (upd (\<lambda>j. j\<lparr>status := Failed\<rparr>) (snd (startScrapingTry w user r0))))"
    by (simp add: startScraping_def split: prod.splits option.splits)
  have "R (snd (startScrapingTry w user r0))"
  proof (cases "launch w")
    case (Some e)
    then show ?thesis
      using q1 by (simp add: startScrapingTry_def Q_R)
  next
    case None
    show ?thesis
    proof (cases "scrapeProfile (profileWorld w) user")
      case (Inl e)
      then show ?thesis
        by (simp add: scrapeProfile_def split: sum.splits)
    next
      case (Inr p)
      let ?r2 = "upd (\<lambda>j. j\<lparr>profileData := Some p\<rparr>) ?r1"
      have q2: "Q ?r2"
        using q1 by (rule Q_profile)
      show ?thesis
      proof (cases "filmsGoto w")
        case (Some e)
        with None Inr show ?thesis
          using q2 by (simp add: startScrapingTry_def Q_R)
      next
        case g: None
        show ?thesis
        proof (cases "filmsContent w")
          case (Inl e)
          with None Inr g show ?thesis
            using q2 by (simp add: startScrapingTry_def Q_R)
        next
          case c: (Inr items)
          let ?T = "computeTotalPages items"
          let ?r3 = "upd (\<lambda>j. j\<lparr>totalPages := ?T\<rparr>) ?r2"
          have "P ?T 1 ?r3"
            using q2 c by (rule Q_total)
          then have "\<exists>c'. P ?T c' (snd (pageLoop (pageWorld w) ?T 1 ?r3))"
            by (rule pageLoop_inv) (simp_all add: push prog skip)
          then have r4: "R (snd (pageLoop (pageWorld w) ?T 1 ?r3))"
            using P_R [OF _ None g c] by blast
          obtain eo r4 where pl: "pageLoop (pageWorld w) ?T 1 ?r3 = (eo, r4)"
            by (cases "pageLoop (pageWorld w) ?T 1 ?r3")
          with r4 have "R r4" by simp
          then have "R (snd (case eo of None \<Rightarrow> (None :: jserror option, upd (\<lambda>j. j\<lparr>status := Completed\<rparr>) r4)
                    | Some e \<Rightarrow> (Some e, r4)))"
            by (cases eo) (simp_all add: R_status)
          moreover have "startScrapingTry w user r0 =
              (case eo of None \<Rightarrow> (None, upd (\<lambda>j. j\<lparr>status := Completed\<rparr>) r4)
                    | Some e \<Rightarrow> (Some e, r4))"
            using None Inr g c pl by (simp add: startScrapingTry_def split: option.splits)
          ultimately show ?thesis by simp
        qed
      qed
    qed
  qed
  then have "R (case fst (startScrapingTry w user r0) of None \<Rightarrow> snd (startScrapingTry w user r0)
       | Some e \<Rightarrow> upd (\<lambda>j. j\<lparr>error := Some (message e)\<rparr>)
           (upd (\<lambda>j. j\<lparr>status := Failed\<rparr>) (snd (startScrapingTry w user r0))))"
    by (rule fin)
  with split_pair show ?thesis by simp
qed

section \<open>Progress\<close>

lemma states_not_Nil [simp]: "states r \<noteq> []"
  by (simp add: states_def)

lemma last_states_upd: "last (states (upd f r)) = last (states r)"
  by (simp add: states_def upd_def)

lemma sorted_progress_upd:
  assumes "sorted_wrt (\<lambda>b a. progress a \<le> progress b) (states r)"
    and "progress (cur r) \<le> progress (f (cur r))"
  shows "sorted_wrt (\<lambda>b a. progress a \<le> progress b) (states (upd f r))"
proof -
  from assms(1) have "\<forall>a\<in>set (snd r). progress a \<le> progress (cur r)"
    by (simp add: states_Cons)
  with assms(2) have "\<forall>a\<in>set (states r). progress a \<le> progress (f (cur r))"
    by (auto simp: states_Cons)
  with assms(1) show ?thesis
    by (simp add: states_upd)
qed

lemma sorted_wrt_all_zero:
  "\<forall>j\<in>set xs. progress j = 0 \<Longrightarrow> sorted_wrt (\<lambda>b a. progress a \<le> progress b) xs"
  by (induction xs) auto

lemma sorted_trace:
  "sorted (map progress (trace r)) \<longleftrightarrow> sorted_wrt (\<lambda>b a. progress a \<le> progress b) (states r)"
  by (simp add: trace_def sorted_map sorted_wrt_rev)

lemma fraction_bounds: "fraction j \<Longrightarrow> 0 \<le> progress j \<and> progress j \<le> 1"
  by (auto simp: fraction_def)

lemma progress_inv:
  "last (states (startScraping w user r0)) = last (states r0) \<and>
   ((\<forall>j\<in>set (states r0). progress j = 0) \<longrightarrow>
      sorted_wrt (\<lambda>b a. progress a \<le> progress b) (states (startScraping w user r0)) \<and>
      (\<forall>j\<in>set (states (startScraping w user r0)). fraction j))"
proof (cases "\<forall>j\<in>set (states r0). progress j = 0")
  case False
  have "last (states (startScraping w user r0)) = last (states r0)"
    by (rule startScraping_inv [where Q = "\<lambda>r. last (states r) = last (states r0)"
          and P = "\<lambda>T c r. last (states r) = last (states r0)"])
       (simp_all add: last_states_upd)
  with False show ?thesis by blast
next
  case True
  let ?G = "\<lambda>r. last (states r) = last (states r0) \<and>
      sorted_wrt (\<lambda>b a. progress a \<le> progress b) (states r) \<and> (\<forall>j\<in>set (states r). fraction j)"
  let ?Q = "\<lambda>r. last (states r) = last (states r0) \<and> (\<forall>j\<in>set (states r). progress j = 0)"
  let ?P = "\<lambda>T c r. ?G r \<and> totalPages (cur r) = T \<and>
      (c \<le> T \<longrightarrow> progress (cur r) \<le> (real_of_int c - 1) / real_of_int T)"
  have "?G (startScraping w user r0)"
  proof (rule startScraping_inv [where Q = ?Q and P = ?P and R = ?G])
    show "?Q r0" using True by simp
  next
    fix r s assume "?Q r"
    then show "?Q (upd (\<lambda>j. j\<lparr>status := s\<rparr>) r)"
      using cur_in_states [of r] by (simp add: last_states_upd states_upd)
  next
    fix r p assume "?Q r"
    then show "?Q (upd (\<lambda>j. j\<lparr>profileData := p\<rparr>) r)"
      using cur_in_states [of r] by (simp add: last_states_upd states_upd)
  next
    fix r items assume q: "?Q r"
    let ?r = "upd (\<lambda>j. j\<lparr>totalPages := computeTotalPages items\<rparr>) r"
    from q cur_in_states [of r] have z: "\<forall>j\<in>set (states ?r). progress j = 0"
      by (simp add: states_upd)
    then have "sorted_wrt (\<lambda>b a. progress a \<le> progress b) (states ?r)"
      by (rule sorted_wrt_all_zero)
    moreover from z have "\<forall>j\<in>set (states ?r). fraction j"
      by (simp add: fraction_def)
    moreover from q cur_in_states [of r] have "progress (cur ?r) = 0"
      by (simp add: cur_upd)
    ultimately show "?P (computeTotalPages items) 1 ?r"
      using q by (simp add: last_states_upd cur_upd)
  next
    fix T c r el f assume p: "?P T c r"
    let ?r = "upd (\<lambda>j. j\<lparr>data := data j @ [f]\<rparr>) r"
    from p have "sorted_wrt (\<lambda>b a. progress a \<le> progress b) (states ?r)"
      by (intro sorted_progress_upd) simp_all
    moreover from p cur_in_states [of r] have "fraction (cur r)" by blast
    then have "fraction (cur ?r)"
      by (simp add: cur_upd fraction_def)
    ultimately show "?P T c ?r"
      using p by (simp add: last_states_upd cur_upd states_upd)
  next
    fix T c :: int and r assume c: "1 \<le> c" "c \<le> T" and p: "?P T c r"
    let ?r = "upd (\<lambda>j. j\<lparr>progress := real_of_int c / real_of_int T\<rparr>) r"
    from c have T: "0 < real_of_int T" by simp
    from p c have "progress (cur r) \<le> (real_of_int c - 1) / real_of_int T" by simp
    also have "\<dots> \<le> real_of_int c / real_of_int T"
      using T by (simp add: divide_right_mono)
    finally have le: "progress (cur r) \<le> real_of_int c / real_of_int T" .
    from p have "sorted_wrt (\<lambda>b a. progress a \<le> progress b) (states ?r)"
      by (intro sorted_progress_upd) (simp_all add: le)
    moreover from p c have "fraction (cur ?r)"
      unfolding fraction_def by (auto simp: cur_upd)
    ultimately show "?P T (c + 1) ?r"
      using p by (simp add: last_states_upd cur_upd states_upd)
  next
    fix T c :: int and r assume c: "1 \<le> c" "c \<le> T" and p: "?P T c r"
    from c have T: "0 < real_of_int T" by simp
    from p c have "progress (cur r) \<le> (real_of_int c - 1) / real_of_int T" by simp
    also have "\<dots> \<le> (real_of_int (c + 1) - 1) / real_of_int T"
      using T by (simp add: divide_right_mono)
    finally show "?P T (c + 1) r"
      using p by simp
  next
    fix r assume q: "?Q r"
    then have "sorted_wrt (\<lambda>b a. progress a \<le> progress b) (states r)"
      by (intro sorted_wrt_all_zero) simp
    with q show "?G r"
      by (simp add: fraction_def)
  next
    fix T c r assume "?P T c r"
    then show "?G r" by simp
  next
    fix r s assume g: "?G r"
    let ?r = "upd (\<lambda>j. j\<lparr>status := s\<rparr>) r"
    from g have "sorted_wrt (\<lambda>b a. progress a \<le> progress b) (states ?r)"
      by (intro sorted_progress_upd) simp_all
    moreover from g cur_in_states [of r] have "fraction (cur r)" by blast
    then have "fraction (cur ?r)"
      by (simp add: cur_upd fraction_def)
    ultimately show "?G ?r"
      using g by (simp add: last_states_upd cur_upd states_upd)
  next
    fix r e assume g: "?G r"
    let ?r = "upd (\<lambda>j. j\<lparr>error := e\<rparr>) r"
    from g have "sorted_wrt (\<lambda>b a. progress a \<le> progress b) (states ?r)"
      by (intro sorted_progress_upd) simp_all
    moreover from g cur_in_states [of r] have "fraction (cur r)" by blast
    then have "fraction (cur ?r)"
      by (simp add: cur_upd fraction_def)
    ultimately show "?G ?r"
      using g by (simp add: last_states_upd cur_upd states_upd)
  qed
  then show ?thesis by simp
qed

text \<open>
  The progress values of a run, as a set: the page loop adds the quotient of each page
  that assigns, and nothing else does.
\<close>

lemma progress_set_upd:
  "progress ` set (states (upd f r)) = insert (progress (f (cur r))) (progress ` set (states r))"
  by (simp add: states_upd)

lemma progress_set_keep:
  "progress (f (cur r)) = progress (cur r) \<Longrightarrow>
     progress ` set (states (upd f r)) = progress ` set (states r)"
  using cur_in_states [of r] by (auto simp: states_upd)

lemma eachLoop_progress_set:
  "progress ` set (states (snd (eachLoop els r))) = progress ` set (states r)"
  by (rule eachLoop_inv [where P = "\<lambda>r'. progress ` set (states r') = progress ` set (states r)"])
     (simp_all add: progress_set_keep)

lemma eachLoop_raises: "fst (eachLoop els r) \<noteq> None \<longleftrightarrow> list_ex itemRaises els"
  by (induction els arbitrary: r) (auto simp: itemRaises_def split: item_result.splits)

lemma writtenPages_end: "\<not> c \<le> T \<Longrightarrow> writtenPages pages T c = []"
  by (simp add: writtenPages_def)

lemma writtenPages_step:
  "c \<le> T \<Longrightarrow> writtenPages pages T c =
     (if pageRaises (pages c) then []
      else if pageCompletes (pages c) then c # writtenPages pages T (c + 1)
      else writtenPages pages T (c + 1))"
  by (simp add: writtenPages_def upto_rec1)

lemma pageLoop_progress_set:
  "progress ` set (states (snd (pageLoop pages T c r))) =
     progress ` set (states r) \<union> (\<lambda>k. real_of_int k / real_of_int T) ` set (writtenPages pages T c)"
proof (induction pages T c r rule: pageLoop.induct)
  case (1 pages T c r)
  show ?case
  proof (cases "c \<le> T")
    case False
    then show ?thesis
      by (subst pageLoop.simps) (simp add: writtenPages_end)
  next
    case le: True
    show ?thesis
    proof (cases "pages c")
      case (PageThrows e)
      with le show ?thesis
        by (subst pageLoop.simps) (simp add: writtenPages_step pageRaises_def)
    next
      case NoGrid
      with le "1.IH"(1) [OF le NoGrid] show ?thesis
        by (subst pageLoop.simps) (simp add: writtenPages_step pageRaises_def pageCompletes_def)
    next
      case (Grid els)
      obtain e r1 where el: "eachLoop els r = (e, r1)"
        by (cases "eachLoop els r")
      have s1: "progress ` set (states r1) = progress ` set (states r)"
        using eachLoop_progress_set [of els r] el by simp
      have ra: "e \<noteq> None \<longleftrightarrow> list_ex itemRaises els"
        using eachLoop_raises [of els r] el by simp
      show ?thesis
      proof (cases e)
        case (Some err)
        with le Grid el s1 ra show ?thesis
          by (subst pageLoop.simps) (simp add: writtenPages_step pageRaises_def)
      next
        case None
        let ?r2 = "upd (\<lambda>j. j\<lparr>progress := real_of_int c / real_of_int T\<rparr>) r1"
        have "progress ` set (states (snd (pageLoop pages T (c + 1) ?r2))) =
            progress ` set (states ?r2) \<union>
            (\<lambda>k. real_of_int k / real_of_int T) ` set (writtenPages pages T (c + 1))"
          by (rule "1.IH"(2) [OF le Grid el [symmetric] None])
        moreover have "progress ` set (states ?r2) =
            insert (real_of_int c / real_of_int T) (progress ` set (states r))"
          by (simp add: progress_set_upd cur_upd s1)
        moreover have "writtenPages pages T c = c # writtenPages pages T (c + 1)"
          using le Grid ra None by (simp add: writtenPages_step pageRaises_def pageCompletes_def)
        moreover have "pageLoop pages T c r = pageLoop pages T (c + 1) ?r2"
          using le Grid el None by (subst pageLoop.simps) simp
        ultimately show ?thesis by simp
      qed
    qed
  qed
qed

lemma pageLoop_states_grow:
  assumes "1 \<le> c"
  shows "\<exists>new. states (snd (pageLoop pages T c r)) = new @ states r"
proof -
  have "\<exists>c'. (\<lambda>(c::int) r'. \<exists>new. states r' = new @ states r) c' (snd (pageLoop pages T c r))"
    by (rule pageLoop_inv [where P = "\<lambda>c r'. \<exists>new. states r' = new @ states r"])
       (auto simp: states_upd assms)
  then show ?thesis by simp
qed

lemma pageLoop_update:
  assumes "1 \<le> c" "c \<le> T" "pages c = Grid els" "eachLoop els r = (None, r1)"
  shows "\<exists>new. states (snd (pageLoop pages T c r)) =
           new @ (cur r1)\<lparr>progress := real_of_int c / real_of_int T\<rparr> # states r1"
proof -
  let ?r2 = "upd (\<lambda>j. j\<lparr>progress := real_of_int c / real_of_int T\<rparr>) r1"
  have "pageLoop pages T c r = pageLoop pages T (c + 1) ?r2"
    using assms(2-4) by (subst pageLoop.simps) simp
  moreover from assms(1) have "\<exists>new. states (snd (pageLoop pages T (c + 1) ?r2)) = new @ states ?r2"
    by (intro pageLoop_states_grow) simp
  ultimately show ?thesis
    by (simp add: states_upd)
qed

lemma startScraping_reached:
  assumes "launch w = None" "filmsGoto w = None" "filmsContent w = Inr items"
    and "scrapeProfile (profileWorld w) user = Inr p"
    and "r3 = upd (\<lambda>j. j\<lparr>totalPages := computeTotalPages items\<rparr>)
              (upd (\<lambda>j. j\<lparr>profileData := Some p\<rparr>) (upd (\<lambda>j. j\<lparr>status := InProgress\<rparr>) r0))"
  shows "startScraping w user r0 =
             (case fst (pageLoop (pageWorld w) (computeTotalPages items) 1 r3) of
                None \<Rightarrow> upd (\<lambda>j. j\<lparr>status := Completed\<rparr>)
                          (snd (pageLoop (pageWorld w) (computeTotalPages items) 1 r3))
              | Some e \<Rightarrow> upd (\<lambda>j. j\<lparr>error := Some (message e)\<rparr>)
                          (upd (\<lambda>j. j\<lparr>status := Failed\<rparr>)
                             (snd (pageLoop (pageWorld w) (computeTotalPages items) 1 r3))))"
proof -
  obtain eo r4 where l: "pageLoop (pageWorld w) (computeTotalPages items) 1 r3 = (eo, r4)"
    by (cases "pageLoop (pageWorld w) (computeTotalPages items) 1 r3")
  then have "startScrapingTry w user r0 =
      (case eo of None \<Rightarrow> (None, upd (\<lambda>j. j\<lparr>status := Completed\<rparr>) r4) | Some e \<Rightarrow> (Some e, r4))"
    using assms by (simp add: startScrapingTry_def split: option.splits)
  with l show ?thesis
    by (cases eo) (simp_all add: startScraping_def)
qed

lemma progress_set_run:
  assumes "launch w = None" "filmsGoto w = None" "filmsContent w = Inr items"
    and "progress ` set (states r0) = {0}"
  shows "progress ` set (states (startScraping w user r0)) =
     insert 0 ((\<lambda>k. real_of_int k / real_of_int (computeTotalPages items)) `
        set (writtenPages (pageWorld w) (computeTotalPages items) 1))"
proof -
  let ?T = "computeTotalPages items"
  obtain p where p: "scrapeProfile (profileWorld w) user = Inr p"
    by (cases "scrapeProfileTry (profileWorld w) user") (simp_all add: scrapeProfile_def)
  define r3 where "r3 = upd (\<lambda>j. j\<lparr>totalPages := ?T\<rparr>)
              (upd (\<lambda>j. j\<lparr>profileData := Some p\<rparr>) (upd (\<lambda>j. j\<lparr>status := InProgress\<rparr>) r0))"
  note s = startScraping_reached [OF assms(1-3) p r3_def]
  have "progress ` set (states r3) = {0}"
    unfolding r3_def using assms(4) by (simp add: progress_set_keep cur_upd)
  then have l: "progress ` set (states (snd (pageLoop (pageWorld w) ?T 1 r3))) =
      insert 0 ((\<lambda>k. real_of_int k / real_of_int ?T) ` set (writtenPages (pageWorld w) ?T 1))"
    by (simp add: pageLoop_progress_set)
  show ?thesis
    unfolding s using l
    by (cases "fst (pageLoop (pageWorld w) ?T 1 r3)") (simp_all add: progress_set_keep cur_upd)
qed

lemma progress_set_early:
  assumes "launch w \<noteq> None \<or> filmsGoto w \<noteq> None \<or> (\<exists>e. filmsContent w = Inl e)"
    and "progress ` set (states r0) = {0}"
  shows "progress ` set (states (startScraping w user r0)) = {0}"
proof -
  have "(launch w \<noteq> None \<or> filmsGoto w \<noteq> None \<or> (\<exists>e. filmsContent w = Inl e)) \<longrightarrow>
      progress ` set (states (startScraping w user r0)) = {0}"
    by (rule startScraping_inv [where Q = "\<lambda>r. progress ` set (states r) = {0}"
          and P = "\<lambda>T c r. True"])
       (auto simp: assms(2) progress_set_keep)
  with assms(1) show ?thesis by blast
qed

text \<open>
  C8. Over the states a job passes through, from the object the submission creates to its
  last state, the progress starts at 0, never decreases and stays within [0, 1]; each
  value other than 0 is a page number between 1 and the job's page count, over that count.
  The iteration for page \<open>currentPage\<close> whose items are parsed without an exception assigns
  \<open>currentPage / totalPages\<close> right after the last push of the page. So the progress values
  of a run that reads the first page are 0 and the quotients of the pages that assign, and
  the only value of a run that fails before is 0.
\<close>

theorem progress_monotone:
  "progress (hd (trace (runJob w user))) = 0
   \<and> sorted (map progress (trace (runJob w user)))
   \<and> (\<forall>j\<in>set (trace (runJob w user)). 0 \<le> progress j \<and> progress j \<le> 1)
   \<and> (\<forall>j\<in>set (trace (runJob w user)). progress j = 0 \<or>
        (\<exists>k. 1 \<le> k \<and> k \<le> totalPages j \<and>
           progress j = real_of_int k / real_of_int (totalPages j)))
   \<and> (1 \<le> currentPage \<and> currentPage \<le> T \<and> pages currentPage = Grid els \<and>
        eachLoop els r = (None, r1) \<longrightarrow>
        (\<exists>new. states (snd (pageLoop pages T currentPage r)) =
           new @ (cur r1)\<lparr>progress := real_of_int currentPage / real_of_int T\<rparr> # states r1))
   \<and> (launch w = None \<and> filmsGoto w = None \<and> filmsContent w = Inr pageItems \<longrightarrow>
        progress ` set (trace (runJob w user)) =
          insert 0 ((\<lambda>k. real_of_int k / real_of_int (computeTotalPages pageItems)) `
            set (writtenPages (pageWorld w) (computeTotalPages pageItems) 1)))
   \<and> (launch w \<noteq> None \<or> filmsGoto w \<noteq> None \<or> (\<exists>e. filmsContent w = Inl e) \<longrightarrow>
        progress ` set (trace (runJob w user)) = {0})"
proof -
  have z: "\<forall>j\<in>set (states (newJob, [])). progress j = 0"
    by (simp add: states_def newJob_def)
  have z': "progress ` set (states (newJob, [])) = {0}"
    by (simp add: states_def newJob_def)
  from progress_inv [of w user "(newJob, [])"] z
  have l: "last (states (runJob w user)) = newJob"
    and s: "sorted_wrt (\<lambda>b a. progress a \<le> progress b) (states (runJob w user))"
    and f: "\<forall>j\<in>set (states (runJob w user)). fraction j"
    by (simp_all add: runJob_def states_def)
  have a: "progress (hd (trace (runJob w user))) = 0"
    using l by (simp add: trace_def hd_rev newJob_def)
  have b: "sorted (map progress (trace (runJob w user)))"
    using s by (simp add: sorted_trace)
  have c: "\<forall>j\<in>set (trace (runJob w user)). 0 \<le> progress j \<and> progress j \<le> 1"
    using f by (simp add: trace_def fraction_bounds)
  have d: "\<forall>j\<in>set (trace (runJob w user)). progress j = 0 \<or>
        (\<exists>k. 1 \<le> k \<and> k \<le> totalPages j \<and>
           progress j = real_of_int k / real_of_int (totalPages j))"
    using f by (simp add: trace_def fraction_def)
  have e: "1 \<le> currentPage \<and> currentPage \<le> T \<and> pages currentPage = Grid els \<and>
        eachLoop els r = (None, r1) \<longrightarrow>
        (\<exists>new. states (snd (pageLoop pages T currentPage r)) =
           new @ (cur r1)\<lparr>progress := real_of_int currentPage / real_of_int T\<rparr> # states r1)"
    by (blast intro: pageLoop_update)
  have g: "launch w = None \<and> filmsGoto w = None \<and> filmsContent w = Inr pageItems \<longrightarrow>
        progress ` set (trace (runJob w user)) =
          insert 0 ((\<lambda>k. real_of_int k / real_of_int (computeTotalPages pageItems)) `
            set (writtenPages (pageWorld w) (computeTotalPages pageItems) 1))"
    using z' by (auto simp only: trace_def set_rev runJob_def dest!: progress_set_run [where user = user])
  have h: "launch w \<noteq> None \<or> filmsGoto w \<noteq> None \<or> (\<exists>e. filmsContent w = Inl e) \<longrightarrow>
        progress ` set (trace (runJob w user)) = {0}"
    using progress_set_early [OF _ z', of w user] by (simp add: trace_def runJob_def)
  show ?thesis
    by (rule conjI [OF a conjI [OF b conjI [OF c conjI [OF d conjI [OF e conjI [OF g h]]]]]])
qed

section \<open>Sample runs\<close>

lemmas run_simps = runJob_def startScraping_def startScrapingTry_def scrapeProfile_def
  scrapeProfileTry_def upd_def cur_def states_def trace_def newJob_def Let_def

lemma total2: "computeTotalPages [js ''1'', js ''2''] = 2"
  by (simp add: computeTotalPages_def parseInt_def js_def trim_def isSpace_def Let_def
      isRadixDigit_def digitVal_def radixValue_def)

lemma arrival:
  "eachFilm arrivalItem = Push \<lparr>Name = js ''Arrival'', Year = Some (js ''2016''),
     Letterboxd_URI = js ''https://letterboxd.com/film/arrival-2016/'', Rating = 4\<rparr>"
  by (simp add: eachFilm_def parseNameYear_def yearMatch_def js_def isSpace_def isDigit_def
      trim_def ratingOfText_def parseRating_def)

lemma sixStars:
  "eachFilm sixStarItem = Push \<lparr>Name = js ''Arrival'', Year = Some (js ''2016''),
     Letterboxd_URI = js ''https://letterboxd.com/film/arrival-2016/'', Rating = 6\<rparr>"
  by (simp add: eachFilm_def parseNameYear_def yearMatch_def js_def isSpace_def isDigit_def
      trim_def ratingOfText_def parseRating_def)

lemma completed_progress:
  "map progress (trace (runJob (twoPages arrivalItem (Grid [arrivalItem])) (js ''alice'')))
     = [0, 0, 0, 0, 0, 1 / 2, 1 / 2, 1, 1]"
  by (simp add: run_simps total2 arrival pageLoop.simps)

lemma upto_1_2: "[1..2] = [1, 2 :: int]"
  by (simp add: upto_rec1)

lemma completed_written:
  "writtenPages (\<lambda>n. Grid [arrivalItem]) 2 1 = [1, 2]"
  by (simp add: writtenPages_def upto_1_2 pageRaises_def pageCompletes_def itemRaises_def arrival)

lemma first_items:
  "eachLoop [arrivalItem] (newJob, []) =
     (None, upd (\<lambda>j. j\<lparr>data := data j @ [\<lparr>Name = js ''Arrival'', Year = Some (js ''2016''),
        Letterboxd_URI = js ''https://letterboxd.com/film/arrival-2016/'', Rating = 4\<rparr>]\<rparr>)
        (newJob, []))"
  by (simp add: arrival)

text \<open>
  The statement at a run over two pages with one film each, at a run whose launch fails,
  and at the first iteration of a loop over two pages.
\<close>

theorem progress_monotone_witness:
  "sorted (map progress (trace (runJob (twoPages arrivalItem (Grid [arrivalItem])) (js ''alice''))))
   \<and> 0 \<le> progress (cur (runJob (twoPages arrivalItem (Grid [arrivalItem])) (js ''alice'')))
   \<and> progress (cur (runJob (twoPages arrivalItem (Grid [arrivalItem])) (js ''alice''))) \<le> 1
   \<and> map progress (trace (runJob (twoPages arrivalItem (Grid [arrivalItem])) (js ''alice'')))
       = [0, 0, 0, 0, 0, 1 / 2, 1 / 2, 1, 1]
   \<and> progress ` set (trace (runJob (twoPages arrivalItem (Grid [arrivalItem])) (js ''alice'')))
       = {0, 1 / 2, 1}
   \<and> progress ` set (trace (runJob \<lparr>launch = Some (JSError (js ''no browser'')),
         profileWorld = noProfile, filmsGoto = None, filmsContent = Inr [js ''1'', js ''2''],
         pageWorld = (\<lambda>n. Grid [arrivalItem])\<rparr> (js ''alice''))) = {0}
   \<and> (\<exists>new. states (snd (pageLoop (\<lambda>n. Grid [arrivalItem]) 2 1 (newJob, []))) =
         new @ [\<lparr>status = Pending,
                  data = [\<lparr>Name = js ''Arrival'', Year = Some (js ''2016''),
                    Letterboxd_URI = js ''https://letterboxd.com/film/arrival-2016/'', Rating = 4\<rparr>],
                  profileData = None, progress = 1 / 2, totalPages = 1, error = None\<rparr>,
                \<lparr>status = Pending,
                  data = [\<lparr>Name = js ''Arrival'', Year = Some (js ''2016''),
                    Letterboxd_URI = js ''https://letterboxd.com/film/arrival-2016/'', Rating = 4\<rparr>],
                  profileData = None, progress = 0, totalPages = 1, error = None\<rparr>,
                newJob])"
proof -
  let ?w = "twoPages arrivalItem (Grid [arrivalItem])"
  let ?v = "\<lparr>launch = Some (JSError (js ''no browser'')),
         profileWorld = noProfile, filmsGoto = None, filmsContent = Inr [js ''1'', js ''2''],
         pageWorld = (\<lambda>n. Grid [arrivalItem])\<rparr>"
  let ?r = "runJob ?w (js ''alice'')"
  let ?r1 = "upd (\<lambda>j. j\<lparr>data := data j @ [\<lparr>Name = js ''Arrival'', Year = Some (js ''2016''),
        Letterboxd_URI = js ''https://letterboxd.com/film/arrival-2016/'', Rating = 4\<rparr>]\<rparr>)
        (newJob, [])"
  note t = progress_monotone [of ?w "js ''alice''" 1 2 "\<lambda>n. Grid [arrivalItem]" "[arrivalItem]"
      "(newJob, [])" ?r1 "[js ''1'', js ''2'']"]
  note u = progress_monotone [of ?v "js ''alice''" 1 2 "\<lambda>n. Grid [arrivalItem]" "[arrivalItem]"
      "(newJob, [])" ?r1 "[js ''1'', js ''2'']"]
  have m: "cur ?r \<in> set (trace ?r)"
    by (simp add: trace_def cur_in_states)
  note t2 = t [THEN conjunct2, THEN conjunct1]
  note t3 = t [THEN conjunct2, THEN conjunct2, THEN conjunct1]
  note t5 = t [THEN conjunct2, THEN conjunct2, THEN conjunct2, THEN conjunct2, THEN conjunct1]
  note t6 = t [THEN conjunct2, THEN conjunct2, THEN conjunct2, THEN conjunct2, THEN conjunct2,
      THEN conjunct1]
  note u7 = u [THEN conjunct2, THEN conjunct2, THEN conjunct2, THEN conjunct2, THEN conjunct2,
      THEN conjunct2]
  from t2 bspec [OF t3 m]
  have a: "sorted (map progress (trace ?r)) \<and> 0 \<le> progress (cur ?r) \<and> progress (cur ?r) \<le> 1"
    by (intro conjI) (erule conjunct1 conjunct2 | assumption)+
  have hw: "launch ?w = None \<and> filmsGoto ?w = None \<and> filmsContent ?w = Inr [js ''1'', js ''2'']"
    by simp
  from t6 [THEN mp, OF hw] have "progress ` set (trace ?r) =
      insert 0 ((\<lambda>k. real_of_int k / real_of_int (computeTotalPages [js ''1'', js ''2''])) `
            set (writtenPages (pageWorld ?w) (computeTotalPages [js ''1'', js ''2'']) 1))" .
  then have b: "progress ` set (trace ?r) = {0, 1 / 2, 1}"
    by (simp add: total2 completed_written)
  have hv: "launch ?v \<noteq> None \<or> filmsGoto ?v \<noteq> None \<or> (\<exists>e. filmsContent ?v = Inl e)"
    by simp
  have c: "progress ` set (trace (runJob ?v (js ''alice''))) = {0}"
    by (rule u7 [THEN mp, OF hv])
  have hl: "(1::int) \<le> 1 \<and> (1::int) \<le> 2 \<and> (\<lambda>n::int. Grid [arrivalItem]) 1 = Grid [arrivalItem] \<and>
      eachLoop [arrivalItem] (newJob, []) = (None, ?r1)"
    using first_items by simp
  have "\<exists>new. states (snd (pageLoop (\<lambda>n. Grid [arrivalItem]) 2 1 (newJob, []))) =
           new @ (cur ?r1)\<lparr>progress := real_of_int 1 / real_of_int 2\<rparr> # states ?r1"
    by (rule t5 [THEN mp, OF hl])
  then have d: "\<exists>new. states (snd (pageLoop (\<lambda>n. Grid [arrivalItem]) 2 1 (newJob, []))) =
         new @ [\<lparr>status = Pending,
                  data = [\<lparr>Name = js ''Arrival'', Year = Some (js ''2016''),
                    Letterboxd_URI = js ''https://letterboxd.com/film/arrival-2016/'', Rating = 4\<rparr>],
                  profileData = None, progress = 1 / 2, totalPages = 1, error = None\<rparr>,
                \<lparr>status = Pending,
                  data = [\<lparr>Name = js ''Arrival'', Year = Some (js ''2016''),
                    Letterboxd_URI = js ''https://letterboxd.com/film/arrival-2016/'', Rating = 4\<rparr>],
                  profileData = None, progress = 0, totalPages = 1, error = None\<rparr>,
                newJob]"
    by (simp add: upd_def cur_def states_def newJob_def)
  from a have a1: "sorted (map progress (trace ?r))" and a2: "0 \<le> progress (cur ?r)"
    and a3: "progress (cur ?r) \<le> 1"
    by simp_all
  show ?thesis
    by (rule conjI [OF a1 conjI [OF a2 conjI [OF a3 conjI [OF completed_progress
          conjI [OF b conjI [OF c d]]]]]])
qed

section \<open>The page count\<close>

lemma pages_split_upd:
  assumes "\<exists>new old. states r = new @ old \<and> new \<noteq> [] \<and> (\<forall>j\<in>set new. totalPages j = T) \<and>
      (\<forall>j\<in>set old. totalPages j = 1)"
    and "totalPages (f (cur r)) = totalPages (cur r)"
  shows "\<exists>new old. states (upd f r) = new @ old \<and> new \<noteq> [] \<and>
      (\<forall>j\<in>set new. totalPages j = T) \<and> (\<forall>j\<in>set old. totalPages j = 1)"
proof -
  from assms(1) obtain new old where s: "states r = new @ old" "new \<noteq> []"
    "\<forall>j\<in>set new. totalPages j = T" "\<forall>j\<in>set old. totalPages j = 1"
    by blast
  from s(1,2) have "cur r \<in> set new"
    by (cases new) (simp_all add: states_Cons)
  with s(3) assms(2) have "totalPages (f (cur r)) = T"
    by simp
  with s have "states (upd f r) = (f (cur r) # new) @ old \<and> f (cur r) # new \<noteq> [] \<and>
      (\<forall>j\<in>set (f (cur r) # new). totalPages j = T) \<and> (\<forall>j\<in>set old. totalPages j = 1)"
    by (simp add: states_upd)
  then show ?thesis by blast
qed

lemma pages_one_upd:
  assumes "\<forall>j\<in>set (states r). totalPages j = 1"
    and "totalPages (f (cur r)) = totalPages (cur r)"
  shows "\<forall>j\<in>set (states (upd f r)). totalPages j = 1"
  using assms cur_in_states [of r] by (simp add: states_upd)

lemma totalPages_inv:
  assumes "\<forall>j\<in>set (states r0). totalPages j = 1"
  shows "(\<forall>items. launch w = None \<and> filmsGoto w = None \<and> filmsContent w = Inr items \<longrightarrow>
            (\<exists>new old. states (startScraping w user r0) = new @ old \<and> new \<noteq> [] \<and>
               (\<forall>j\<in>set new. totalPages j = computeTotalPages items) \<and>
               (\<forall>j\<in>set old. totalPages j = 1)))
         \<and> (launch w \<noteq> None \<or> filmsGoto w \<noteq> None \<or> (\<exists>e. filmsContent w = Inl e) \<longrightarrow>
            (\<forall>j\<in>set (states (startScraping w user r0)). totalPages j = 1))"
    (is "?R (startScraping w user r0)")
proof (rule startScraping_inv [where Q = "\<lambda>r. \<forall>j\<in>set (states r). totalPages j = 1"
      and P = "\<lambda>T c r. \<exists>new old. states r = new @ old \<and> new \<noteq> [] \<and>
          (\<forall>j\<in>set new. totalPages j = T) \<and> (\<forall>j\<in>set old. totalPages j = 1)"
      and R = ?R])
  show "\<forall>j\<in>set (states r0). totalPages j = 1" by (rule assms)
next
  fix r s assume "\<forall>j\<in>set (states r). totalPages j = 1"
  then show "\<forall>j\<in>set (states (upd (\<lambda>j. j\<lparr>status := s\<rparr>) r)). totalPages j = 1"
    by (rule pages_one_upd) simp
next
  fix r p assume "\<forall>j\<in>set (states r). totalPages j = 1"
  then show "\<forall>j\<in>set (states (upd (\<lambda>j. j\<lparr>profileData := p\<rparr>) r)). totalPages j = 1"
    by (rule pages_one_upd) simp
next
  fix r items assume q: "\<forall>j\<in>set (states r). totalPages j = 1"
  let ?r = "upd (\<lambda>j. j\<lparr>totalPages := computeTotalPages items\<rparr>) r"
  have "states ?r = [cur ?r] @ states r \<and> [cur ?r] \<noteq> [] \<and>
      (\<forall>j\<in>set [cur ?r]. totalPages j = computeTotalPages items) \<and>
      (\<forall>j\<in>set (states r). totalPages j = 1)"
    using q by (simp add: states_upd cur_upd)
  then show "\<exists>new old. states ?r = new @ old \<and> new \<noteq> [] \<and>
      (\<forall>j\<in>set new. totalPages j = computeTotalPages items) \<and> (\<forall>j\<in>set old. totalPages j = 1)"
    by blast
next
  fix T c r el f
  assume "\<exists>new old. states r = new @ old \<and> new \<noteq> [] \<and> (\<forall>j\<in>set new. totalPages j = T) \<and>
      (\<forall>j\<in>set old. totalPages j = 1)"
  then show "\<exists>new old. states (upd (\<lambda>j. j\<lparr>data := data j @ [f]\<rparr>) r) = new @ old \<and> new \<noteq> [] \<and>
      (\<forall>j\<in>set new. totalPages j = T) \<and> (\<forall>j\<in>set old. totalPages j = 1)"
    by (rule pages_split_upd) simp
next
  fix T c :: int and r
  assume "\<exists>new old. states r = new @ old \<and> new \<noteq> [] \<and> (\<forall>j\<in>set new. totalPages j = T) \<and>
      (\<forall>j\<in>set old. totalPages j = 1)"
  then show "\<exists>new old. states (upd (\<lambda>j. j\<lparr>progress := real_of_int c / real_of_int T\<rparr>) r) = new @ old \<and>
      new \<noteq> [] \<and> (\<forall>j\<in>set new. totalPages j = T) \<and> (\<forall>j\<in>set old. totalPages j = 1)"
    by (rule pages_split_upd) simp
next
  fix T c :: int and r
  assume "\<exists>new old. states r = new @ old \<and> new \<noteq> [] \<and> (\<forall>j\<in>set new. totalPages j = T) \<and>
      (\<forall>j\<in>set old. totalPages j = 1)"
  then show "\<exists>new old. states r = new @ old \<and> new \<noteq> [] \<and> (\<forall>j\<in>set new. totalPages j = T) \<and>
      (\<forall>j\<in>set old. totalPages j = 1)" .
next
  fix r
  assume "\<forall>j\<in>set (states r). totalPages j = 1"
    and "launch w \<noteq> None \<or> filmsGoto w \<noteq> None \<or> (\<exists>e. filmsContent w = Inl e)"
  then show "?R r" by auto
next
  fix c r items
  assume "\<exists>new old. states r = new @ old \<and> new \<noteq> [] \<and>
      (\<forall>j\<in>set new. totalPages j = computeTotalPages items) \<and> (\<forall>j\<in>set old. totalPages j = 1)"
    and "launch w = None" "filmsGoto w = None" "filmsContent w = Inr items"
  then show "?R r" by auto
next
  fix r s assume r: "?R r"
  show "?R (upd (\<lambda>j. j\<lparr>status := s\<rparr>) r)"
  proof (intro conjI allI impI)
    fix items assume "launch w = None \<and> filmsGoto w = None \<and> filmsContent w = Inr items"
    with r have "\<exists>new old. states r = new @ old \<and> new \<noteq> [] \<and>
      (\<forall>j\<in>set new. totalPages j = computeTotalPages items) \<and> (\<forall>j\<in>set old. totalPages j = 1)"
      by blast
    then show "\<exists>new old. states (upd (\<lambda>j. j\<lparr>status := s\<rparr>) r) = new @ old \<and> new \<noteq> [] \<and>
      (\<forall>j\<in>set new. totalPages j = computeTotalPages items) \<and> (\<forall>j\<in>set old. totalPages j = 1)"
      by (rule pages_split_upd) simp
  next
    assume "launch w \<noteq> None \<or> filmsGoto w \<noteq> None \<or> (\<exists>e. filmsContent w = Inl e)"
    with r have "\<forall>j\<in>set (states r). totalPages j = 1" by blast
    then show "\<forall>j\<in>set (states (upd (\<lambda>j. j\<lparr>status := s\<rparr>) r)). totalPages j = 1"
      by (rule pages_one_upd) simp
  qed
next
  fix r e assume r: "?R r"
  show "?R (upd (\<lambda>j. j\<lparr>error := e\<rparr>) r)"
  proof (intro conjI allI impI)
    fix items assume "launch w = None \<and> filmsGoto w = None \<and> filmsContent w = Inr items"
    with r have "\<exists>new old. states r = new @ old \<and> new \<noteq> [] \<and>
      (\<forall>j\<in>set new. totalPages j = computeTotalPages items) \<and> (\<forall>j\<in>set old. totalPages j = 1)"
      by blast
    then show "\<exists>new old. states (upd (\<lambda>j. j\<lparr>error := e\<rparr>) r) = new @ old \<and> new \<noteq> [] \<and>
      (\<forall>j\<in>set new. totalPages j = computeTotalPages items) \<and> (\<forall>j\<in>set old. totalPages j = 1)"
      by (rule pages_split_upd) simp
  next
    assume "launch w \<noteq> None \<or> filmsGoto w \<noteq> None \<or> (\<exists>e. filmsContent w = Inl e)"
    with r have "\<forall>j\<in>set (states r). totalPages j = 1" by blast
    then show "\<forall>j\<in>set (states (upd (\<lambda>j. j\<lparr>error := e\<rparr>) r)). totalPages j = 1"
      by (rule pages_one_upd) simp
  qed
qed

text \<open>
  C5. The page count is 1 when the pagination list of the first page is empty or the
  text of its last entry does not parse as a number, and the parsed number otherwise.
  When the first page is read, the states of the job are a run of states with the initial
  count 1 followed by a non-empty run of states with that count; when the crawl fails
  before, the count stays 1.
\<close>

theorem totalPages_fixed:
  "computeTotalPages pageItems =
     (if pageItems = [] then 1
      else case parseInt (trim (last pageItems)) of None \<Rightarrow> 1 | Some n \<Rightarrow> n)
   \<and> (launch w = None \<and> filmsGoto w = None \<and> filmsContent w = Inr pageItems \<longrightarrow>
        (\<exists>tr1 tr2. trace (runJob w user) = tr1 @ tr2 \<and> tr2 \<noteq> [] \<and>
           (\<forall>j\<in>set tr1. totalPages j = 1) \<and>
           (\<forall>j\<in>set tr2. totalPages j = computeTotalPages pageItems)))
   \<and> (launch w \<noteq> None \<or> filmsGoto w \<noteq> None \<or> (\<exists>e. filmsContent w = Inl e) \<longrightarrow>
        (\<forall>j\<in>set (trace (runJob w user)). totalPages j = 1))"
proof -
  have a: "computeTotalPages pageItems =
     (if pageItems = [] then 1
      else case parseInt (trim (last pageItems)) of None \<Rightarrow> 1 | Some n \<Rightarrow> n)"
    by (simp add: computeTotalPages_def split: option.splits)
  have i: "\<forall>j\<in>set (states (newJob, [])). totalPages j = 1"
    by (simp add: states_def newJob_def)
  note inv = totalPages_inv [OF i, of w user, folded runJob_def]
  have b: "launch w = None \<and> filmsGoto w = None \<and> filmsContent w = Inr pageItems \<longrightarrow>
        (\<exists>tr1 tr2. trace (runJob w user) = tr1 @ tr2 \<and> tr2 \<noteq> [] \<and>
           (\<forall>j\<in>set tr1. totalPages j = 1) \<and>
           (\<forall>j\<in>set tr2. totalPages j = computeTotalPages pageItems))"
  proof
    assume "launch w = None \<and> filmsGoto w = None \<and> filmsContent w = Inr pageItems"
    with inv obtain new old where s: "states (runJob w user) = new @ old" "new \<noteq> []"
      "\<forall>j\<in>set new. totalPages j = computeTotalPages pageItems" "\<forall>j\<in>set old. totalPages j = 1"
      by blast
    then have "trace (runJob w user) = rev old @ rev new \<and> rev new \<noteq> [] \<and>
        (\<forall>j\<in>set (rev old). totalPages j = 1) \<and>
        (\<forall>j\<in>set (rev new). totalPages j = computeTotalPages pageItems)"
      by (simp add: trace_def)
    then show "\<exists>tr1 tr2. trace (runJob w user) = tr1 @ tr2 \<and> tr2 \<noteq> [] \<and>
           (\<forall>j\<in>set tr1. totalPages j = 1) \<and>
           (\<forall>j\<in>set tr2. totalPages j = computeTotalPages pageItems)"
      by blast
  qed
  have c: "launch w \<noteq> None \<or> filmsGoto w \<noteq> None \<or> (\<exists>e. filmsContent w = Inl e) \<longrightarrow>
        (\<forall>j\<in>set (trace (runJob w user)). totalPages j = 1)"
    using inv by (simp add: trace_def)
  show ?thesis
    by (rule conjI [OF a conjI [OF b c]])
qed

text \<open>The statement at a listing whose pagination ends with \<open>2\<close>, and at a failed launch.\<close>

theorem totalPages_fixed_witness:
  "computeTotalPages [js ''1'', js ''2''] = 2
   \<and> (\<exists>tr1 tr2. trace (runJob (twoPages arrivalItem NoGrid) (js ''alice'')) = tr1 @ tr2 \<and> tr2 \<noteq> [] \<and>
         list_all (\<lambda>j. totalPages j = 1) tr1 \<and> list_all (\<lambda>j. totalPages j = 2) tr2)
   \<and> list_all (\<lambda>j. totalPages j = 1)
        (trace (runJob \<lparr>launch = Some (JSError (js ''no browser'')), profileWorld = noProfile,
           filmsGoto = None, filmsContent = Inr [js ''1'', js ''2''],
           pageWorld = (\<lambda>n. NoGrid)\<rparr> (js ''alice'')))"
proof -
  let ?w = "twoPages arrivalItem NoGrid"
  let ?v = "\<lparr>launch = Some (JSError (js ''no browser'')), profileWorld = noProfile,
           filmsGoto = None, filmsContent = Inr [js ''1'', js ''2''],
           pageWorld = (\<lambda>n. NoGrid)\<rparr>"
  have h: "launch ?w = None \<and> filmsGoto ?w = None \<and> filmsContent ?w = Inr [js ''1'', js ''2'']"
    by simp
  have g: "launch ?v \<noteq> None" by simp
  from totalPages_fixed [of "[js ''1'', js ''2'']" ?w "js ''alice''"] h
  have "\<exists>tr1 tr2. trace (runJob ?w (js ''alice'')) = tr1 @ tr2 \<and> tr2 \<noteq> [] \<and>
           (\<forall>j\<in>set tr1. totalPages j = 1) \<and>
           (\<forall>j\<in>set tr2. totalPages j = computeTotalPages [js ''1'', js ''2''])"
    by blast
  then have b: "\<exists>tr1 tr2. trace (runJob ?w (js ''alice'')) = tr1 @ tr2 \<and> tr2 \<noteq> [] \<and>
         list_all (\<lambda>j. totalPages j = 1) tr1 \<and> list_all (\<lambda>j. totalPages j = 2) tr2"
    by (simp add: total2 list_all_iff)
  from totalPages_fixed [of "[js ''1'', js ''2'']" ?v "js ''alice''"] g
  have "\<forall>j\<in>set (trace (runJob ?v (js ''alice''))). totalPages j = 1"
    by blast
  then have c: "list_all (\<lambda>j. totalPages j = 1) (trace (runJob ?v (js ''alice'')))"
    by (simp add: list_all_iff)
  show ?thesis
    by (rule conjI [OF total2 conjI [OF b c]])
qed

section \<open>Failed jobs\<close>

lemma data_prefix_upd:
  assumes "\<forall>j\<in>set (states r). prefix (data j) (data (cur r))"
    and "prefix (data (cur r)) (data (f (cur r)))"
  shows "\<forall>j\<in>set (states (upd f r)). prefix (data j) (data (cur (upd f r)))"
  using assms by (auto simp: states_upd cur_upd intro: prefix_order.trans)

lemma data_prefix_inv:
  assumes "\<forall>j\<in>set (states r0). prefix (data j) (data (cur r0))"
  shows "\<forall>j\<in>set (states (startScraping w user r0)).
           prefix (data j) (data (cur (startScraping w user r0)))"
  by (rule startScraping_inv [where Q = "\<lambda>r. \<forall>j\<in>set (states r). prefix (data j) (data (cur r))"
        and P = "\<lambda>T c r. \<forall>j\<in>set (states r). prefix (data j) (data (cur r))"])
     (simp_all add: assms data_prefix_upd)

lemma try_None_completed:
  "fst (startScrapingTry w user r0) = None \<Longrightarrow>
     status (cur (snd (startScrapingTry w user r0))) = Completed"
  by (auto simp: startScrapingTry_def Let_def cur_upd split: option.splits sum.splits prod.splits)

lemma failed_error:
  assumes "status (cur (startScraping w user r0)) = Failed"
  shows "\<exists>e. fst (startScrapingTry w user r0) = Some e \<and>
           error (cur (startScraping w user r0)) = Some (message e)"
proof -
  obtain eo r where t: "startScrapingTry w user r0 = (eo, r)"
    by (cases "startScrapingTry w user r0")
  show ?thesis
  proof (cases eo)
    case None
    with t have "startScraping w user r0 = r"
      by (simp add: startScraping_def)
    moreover from t None have "status (cur r) = Completed"
      using try_None_completed [of w user r0] by simp
    ultimately show ?thesis
      using assms by simp
  next
    case (Some e)
    with t have "error (cur (startScraping w user r0)) = Some (message e)"
      by (simp add: startScraping_def cur_upd)
    with t Some show ?thesis by simp
  qed
qed

text \<open>
  C1, amended. For a job that has failed, the job object keeps every record pushed
  before the exception (the data of each earlier state is a prefix of its data) and its
  error is a string; a poll returns the status \<open>failed\<close> and that error, with an empty
  \<open>data\<close> list, since \<open>data\<close> is returned for a completed job only.
\<close>

theorem failed_job_poll:
  "status (cur (runJob w user)) = Failed \<longrightarrow>
     error (cur (runJob w user)) \<noteq> None
     \<and> (\<forall>j\<in>set (trace (runJob w user)). prefix (data j) (data (cur (runJob w user))))
     \<and> (jobId \<noteq> [] \<longrightarrow>
          getHandler jobId (scrapingJobs(jobId \<mapsto> cur (runJob w user))) =
            StatusOk \<lparr>view_status = Failed, view_progress = progress (cur (runJob w user)),
                      view_totalPages = totalPages (cur (runJob w user)), view_data = [],
                      view_profileData = profileData (cur (runJob w user)),
                      view_error = error (cur (runJob w user))\<rparr>)"
proof
  assume f: "status (cur (runJob w user)) = Failed"
  then have a: "error (cur (runJob w user)) \<noteq> None"
    using failed_error [of w user "(newJob, [])"] by (auto simp: runJob_def)
  have "\<forall>j\<in>set (states (newJob, [])). prefix (data j) (data (cur (newJob, [])))"
    by (simp add: states_def cur_def)
  then have b: "\<forall>j\<in>set (trace (runJob w user)). prefix (data j) (data (cur (runJob w user)))"
    unfolding runJob_def trace_def set_rev by (rule data_prefix_inv)
  have c: "jobId \<noteq> [] \<longrightarrow>
          getHandler jobId (scrapingJobs(jobId \<mapsto> cur (runJob w user))) =
            StatusOk \<lparr>view_status = Failed, view_progress = progress (cur (runJob w user)),
                      view_totalPages = totalPages (cur (runJob w user)), view_data = [],
                      view_profileData = profileData (cur (runJob w user)),
                      view_error = error (cur (runJob w user))\<rparr>"
    using f by (simp add: getHandler_def)
  show "error (cur (runJob w user)) \<noteq> None
     \<and> (\<forall>j\<in>set (trace (runJob w user)). prefix (data j) (data (cur (runJob w user))))
     \<and> (jobId \<noteq> [] \<longrightarrow>
          getHandler jobId (scrapingJobs(jobId \<mapsto> cur (runJob w user))) =
            StatusOk \<lparr>view_status = Failed, view_progress = progress (cur (runJob w user)),
                      view_totalPages = totalPages (cur (runJob w user)), view_data = [],
                      view_profileData = profileData (cur (runJob w user)),
                      view_error = error (cur (runJob w user))\<rparr>)"
    by (rule conjI [OF a conjI [OF b c]])
qed

lemma failed_run:
  "cur (runJob (twoPages arrivalItem (PageThrows (JSError (js ''Navigation timeout'')))) (js ''alice''))
     = \<lparr>status = Failed,
        data = [\<lparr>Name = js ''Arrival'', Year = Some (js ''2016''),
                 Letterboxd_URI = js ''https://letterboxd.com/film/arrival-2016/'', Rating = 4\<rparr>],
        profileData = Some \<lparr>displayName = js ''alice'', username = js ''alice'', avatarUrl = None,
          location = None, bio = None,
          stats = \<lparr>totalFilms = 0, filmsThisYear = 0, following = 0, followers = 0\<rparr>\<rparr>,
        progress = 1 / 2, totalPages = 2, error = Some (js ''Navigation timeout'')\<rparr>"
  by (simp add: run_simps total2 arrival pageLoop.simps)

lemma job_1_not_empty: "js ''job_1'' \<noteq> []"
  by (simp add: js_def)

text \<open>The amended statement at a run whose second page cannot be loaded.\<close>

theorem failed_job_poll_witness:
  "status (cur (runJob (twoPages arrivalItem (PageThrows (JSError (js ''Navigation timeout''))))
       (js ''alice''))) = Failed
   \<and> error (cur (runJob (twoPages arrivalItem (PageThrows (JSError (js ''Navigation timeout''))))
       (js ''alice''))) \<noteq> None
   \<and> prefix (data newJob)
       (data (cur (runJob (twoPages arrivalItem (PageThrows (JSError (js ''Navigation timeout''))))
          (js ''alice''))))
   \<and> getHandler (js ''job_1'')
        [js ''job_1'' \<mapsto>
           cur (runJob (twoPages arrivalItem (PageThrows (JSError (js ''Navigation timeout''))))
             (js ''alice''))] =
        StatusOk \<lparr>view_status = Failed, view_progress = 1 / 2, view_totalPages = 2, view_data = [],
          view_profileData = Some \<lparr>displayName = js ''alice'', username = js ''alice'',
            avatarUrl = None, location = None, bio = None,
            stats = \<lparr>totalFilms = 0, filmsThisYear = 0, following = 0, followers = 0\<rparr>\<rparr>,
          view_error = Some (js ''Navigation timeout'')\<rparr>"
proof -
  let ?r = "runJob (twoPages arrivalItem (PageThrows (JSError (js ''Navigation timeout''))))
       (js ''alice'')"
  have f: "status (cur ?r) = Failed"
    by (simp add: failed_run)
  note t = failed_job_poll [of "twoPages arrivalItem (PageThrows (JSError (js ''Navigation timeout'')))"
      "js ''alice''" "js ''job_1''" Map.empty]
  from t f have a: "error (cur ?r) \<noteq> None"
    by blast
  from t f have "\<forall>j\<in>set (trace ?r). prefix (data j) (data (cur ?r))"
    by blast
  then have b: "prefix (data newJob) (data (cur ?r))"
    by (simp add: newJob_def)
  from t f job_1_not_empty
  have "getHandler (js ''job_1'') [js ''job_1'' \<mapsto> cur ?r] =
      StatusOk \<lparr>view_status = Failed, view_progress = progress (cur ?r),
        view_totalPages = totalPages (cur ?r), view_data = [],
        view_profileData = profileData (cur ?r), view_error = error (cur ?r)\<rparr>"
    by blast
  then have c: "getHandler (js ''job_1'') [js ''job_1'' \<mapsto> cur ?r] =
        StatusOk \<lparr>view_status = Failed, view_progress = 1 / 2, view_totalPages = 2, view_data = [],
          view_profileData = Some \<lparr>displayName = js ''alice'', username = js ''alice'',
            avatarUrl = None, location = None, bio = None,
            stats = \<lparr>totalFilms = 0, filmsThisYear = 0, following = 0, followers = 0\<rparr>\<rparr>,
          view_error = Some (js ''Navigation timeout'')\<rparr>"
    by (simp add: failed_run)
  show ?thesis
    by (rule conjI [OF f conjI [OF a conjI [OF b c]]])
qed

text \<open>
  C1 as stated fails: the job has failed with one record pushed, and the poll returns
  no record.
\<close>

theorem failed_job_poll_counterexample:
  "status (cur (runJob (twoPages arrivalItem (PageThrows (JSError (js ''Navigation timeout''))))
       (js ''alice''))) = Failed
   \<and> data (cur (runJob (twoPages arrivalItem (PageThrows (JSError (js ''Navigation timeout''))))
       (js ''alice''))) =
       [\<lparr>Name = js ''Arrival'', Year = Some (js ''2016''),
         Letterboxd_URI = js ''https://letterboxd.com/film/arrival-2016/'', Rating = 4\<rparr>]
   \<and> getHandler (js ''job_1'')
        [js ''job_1'' \<mapsto>
           cur (runJob (twoPages arrivalItem (PageThrows (JSError (js ''Navigation timeout''))))
             (js ''alice''))] =
        StatusOk \<lparr>view_status = Failed, view_progress = 1 / 2, view_totalPages = 2, view_data = [],
          view_profileData = Some \<lparr>displayName = js ''alice'', username = js ''alice'',
            avatarUrl = None, location = None, bio = None,
            stats = \<lparr>totalFilms = 0, filmsThisYear = 0, following = 0, followers = 0\<rparr>\<rparr>,
          view_error = Some (js ''Navigation timeout'')\<rparr>"
  by (simp add: failed_run getHandler_def job_1_not_empty)

section \<open>Ratings of the records of a job\<close>

lemma eachFilm_Rating: "eachFilm el = Push f \<Longrightarrow> Rating f = ratingOfText (ratingRaw el)"
  by (auto simp: eachFilm_def Let_def split: if_splits dataval.splits prod.splits)

lemma ratingOfText_half_steps: "0 \<le> ratingOfText raw \<and> (\<exists>n::nat. ratingOfText raw = real n / 2)"
proof (cases "HALF \<in> set raw")
  case True
  then have "ratingOfText raw = real (2 * count_list raw STAR + 1) / 2"
    by (simp add: ratingOfText_count add_divide_distrib)
  then show ?thesis
    by (metis divide_nonneg_nonneg of_nat_0_le_iff zero_le_numeral)
next
  case False
  then have "ratingOfText raw = real (2 * count_list raw STAR) / 2"
    by (simp add: ratingOfText_count)
  then show ?thesis
    by (metis divide_nonneg_nonneg of_nat_0_le_iff zero_le_numeral)
qed

lemma ratings_keep:
  assumes "\<forall>j\<in>set (states r). \<forall>f\<in>set (data j). \<exists>raw. Rating f = ratingOfText raw"
    and "data (h (cur r)) = data (cur r)"
  shows "\<forall>j\<in>set (states (upd h r)). \<forall>f\<in>set (data j). \<exists>raw. Rating f = ratingOfText raw"
  using assms cur_in_states [of r] by (simp add: states_upd)

lemma ratings_inv:
  assumes "\<forall>j\<in>set (states r0). \<forall>f\<in>set (data j). \<exists>raw. Rating f = ratingOfText raw"
  shows "\<forall>j\<in>set (states (startScraping w user r0)). \<forall>f\<in>set (data j).
           \<exists>raw. Rating f = ratingOfText raw"
proof (rule startScraping_inv [where
      Q = "\<lambda>r. \<forall>j\<in>set (states r). \<forall>f\<in>set (data j). \<exists>raw. Rating f = ratingOfText raw"
      and P = "\<lambda>T c r. \<forall>j\<in>set (states r). \<forall>f\<in>set (data j). \<exists>raw. Rating f = ratingOfText raw"])
  fix T c r el f
  assume a: "\<forall>j\<in>set (states r). \<forall>f\<in>set (data j). \<exists>raw. Rating f = ratingOfText raw"
    and p: "eachFilm el = Push f"
  from a cur_in_states [of r] have "\<forall>g\<in>set (data (cur r)). \<exists>raw. Rating g = ratingOfText raw"
    by blast
  moreover from p have "\<exists>raw. Rating f = ratingOfText raw"
    by (blast dest: eachFilm_Rating)
  ultimately have "\<forall>g\<in>set (data ((cur r)\<lparr>data := data (cur r) @ [f]\<rparr>)). \<exists>raw. Rating g = ratingOfText raw"
    by auto
  with a show "\<forall>j\<in>set (states (upd (\<lambda>j. j\<lparr>data := data j @ [f]\<rparr>) r)). \<forall>f\<in>set (data j).
      \<exists>raw. Rating f = ratingOfText raw"
    by (simp add: states_upd)
qed (rule assms | assumption | (rule ratings_keep, assumption, simp))+

text \<open>
  C6, amended. Every record in the data of a job has a rating that is a non-negative
  multiple of 0.5: the number of full-star glyphs of the item's rating text, plus 0.5
  if the text holds a half-star glyph. The rating is at most 5 when the text holds at
  most four full stars, or five and no half star.
\<close>

theorem rating_half_steps:
  "(\<forall>j\<in>set (trace (runJob w user)). \<forall>f\<in>set (data j).
       0 \<le> Rating f \<and> (\<exists>n::nat. Rating f = real n / 2))
   \<and> (eachFilm el = Push f \<longrightarrow>
        Rating f = real (count_list (ratingRaw el) STAR)
                     + (if HALF \<in> set (ratingRaw el) then 1 / 2 else 0))
   \<and> (eachFilm el = Push f \<and>
        (count_list (ratingRaw el) STAR \<le> 4
           \<or> count_list (ratingRaw el) STAR = 5 \<and> HALF \<notin> set (ratingRaw el)) \<longrightarrow>
        Rating f \<le> 5)"
proof -
  have "\<forall>j\<in>set (states (newJob, [])). \<forall>f\<in>set (data j). \<exists>raw. Rating f = ratingOfText raw"
    by (simp add: states_def newJob_def)
  then have "\<forall>j\<in>set (states (runJob w user)). \<forall>f\<in>set (data j). \<exists>raw. Rating f = ratingOfText raw"
    unfolding runJob_def by (rule ratings_inv)
  then have a: "\<forall>j\<in>set (trace (runJob w user)). \<forall>f\<in>set (data j).
       0 \<le> Rating f \<and> (\<exists>n::nat. Rating f = real n / 2)"
    using ratingOfText_half_steps by (fastforce simp: trace_def)
  have b: "eachFilm el = Push f \<longrightarrow>
        Rating f = real (count_list (ratingRaw el) STAR)
                     + (if HALF \<in> set (ratingRaw el) then 1 / 2 else 0)"
    by (auto dest!: eachFilm_Rating simp: ratingOfText_count)
  have c: "eachFilm el = Push f \<and>
        (count_list (ratingRaw el) STAR \<le> 4
           \<or> count_list (ratingRaw el) STAR = 5 \<and> HALF \<notin> set (ratingRaw el)) \<longrightarrow>
        Rating f \<le> 5"
    by (auto dest!: eachFilm_Rating simp: ratingOfText_count)
  show ?thesis
    by (rule conjI [OF a conjI [OF b c]])
qed

lemma six_star_run:
  "map Rating (data (cur (runJob (twoPages sixStarItem NoGrid) (js ''alice'')))) = [6]"
  by (simp add: run_simps total2 sixStars pageLoop.simps)

lemma four_star_run:
  "data (cur (runJob (twoPages arrivalItem NoGrid) (js ''alice''))) =
     [\<lparr>Name = js ''Arrival'', Year = Some (js ''2016''),
       Letterboxd_URI = js ''https://letterboxd.com/film/arrival-2016/'', Rating = 4\<rparr>]"
  by (simp add: run_simps total2 arrival pageLoop.simps)

text \<open>The amended statement at a completed run with one record of four stars.\<close>

theorem rating_half_steps_witness:
  "list_all (\<lambda>f. 0 \<le> Rating f \<and> (\<exists>n::nat. Rating f = real n / 2))
     (data (cur (runJob (twoPages arrivalItem NoGrid) (js ''alice''))))
   \<and> data (cur (runJob (twoPages arrivalItem NoGrid) (js ''alice''))) \<noteq> []
   \<and> Rating \<lparr>Name = js ''Arrival'', Year = Some (js ''2016''),
        Letterboxd_URI = js ''https://letterboxd.com/film/arrival-2016/'', Rating = 4\<rparr> \<le> 5"
proof -
  let ?r = "runJob (twoPages arrivalItem NoGrid) (js ''alice'')"
  let ?f = "\<lparr>Name = js ''Arrival'', Year = Some (js ''2016''),
        Letterboxd_URI = js ''https://letterboxd.com/film/arrival-2016/'', Rating = 4\<rparr>"
  note t = rating_half_steps [of "twoPages arrivalItem NoGrid" "js ''alice''" arrivalItem ?f]
  have m: "cur ?r \<in> set (trace ?r)"
    by (simp add: trace_def cur_in_states)
  from t m have a: "list_all (\<lambda>f. 0 \<le> Rating f \<and> (\<exists>n::nat. Rating f = real n / 2)) (data (cur ?r))"
    unfolding list_all_iff by blast
  have b: "data (cur ?r) \<noteq> []"
    by (simp add: four_star_run)
  have "count_list (ratingRaw arrivalItem) STAR \<le> 4"
    by simp
  with t arrival have c: "Rating ?f \<le> 5"
    by blast
  show ?thesis
    by (rule conjI [OF a conjI [OF b c]])
qed

text \<open>
  C6 as stated fails: a rating text of six full-star glyphs gives a record with
  rating 6.
\<close>

theorem rating_half_steps_counterexample:
  "map Rating (data (cur (runJob (twoPages sixStarItem NoGrid) (js ''alice'')))) = [6]
   \<and> \<not> (6 :: real) \<le> 5"
  by (simp add: six_star_run)

section \<open>Job ids\<close>

lemma dec_example: "dec 1700000000000 = js ''1700000000000''"
  by (simp add: dec.simps js_def)

text \<open>
  C2 fails on the code: the job id is \<open>job_\<close> followed by the clock reading in
  milliseconds, so two submissions at the same reading get the same id, and the second
  job replaces the first in the store. Both replies have the status \<open>pending\<close>.
\<close>

theorem same_millisecond_same_jobId:
  "fst (postHandler 1700000000000 (js ''alice'') Map.empty)
     = Started (js ''job_1700000000000'') Pending (js ''Scraping started'')
   \<and> fst (postHandler 1700000000000 (js ''bob'')
        (snd (postHandler 1700000000000 (js ''alice'') Map.empty)))
     = Started (js ''job_1700000000000'') Pending (js ''Scraping started'')
   \<and> dom (snd (postHandler 1700000000000 (js ''bob'')
        (snd (postHandler 1700000000000 (js ''alice'') Map.empty))))
     = {js ''job_1700000000000''}"
proof -
  have ne: "js ''alice'' \<noteq> []" "js ''bob'' \<noteq> []"
    by (simp_all add: js_def)
  have id: "js ''job_'' @ dec 1700000000000 = js ''job_1700000000000''"
    by (simp add: dec_example) (simp add: js_def)
  show ?thesis
    using ne by (simp add: postHandler_def Let_def id)
qed

lemma digit_char_inj:
  assumes "a < 10" "b < 10" "(of_nat (48 + a) :: jschar) = of_nat (48 + b)"
  shows "a = b"
proof -
  have ua: "unat (of_nat (48 + a) :: jschar) = 48 + a"
    by (rule of_nat_inverse [OF refl]) (use assms(1) in simp)
  have ub: "unat (of_nat (48 + b) :: jschar) = 48 + b"
    by (rule of_nat_inverse [OF refl]) (use assms(2) in simp)
  have "unat (of_nat (48 + a) :: jschar) = unat (of_nat (48 + b) :: jschar)"
    using assms(3) by (rule arg_cong)
  then have "48 + a = 48 + b"
    by (simp only: ua ub)
  then show ?thesis by simp
qed

lemma dec_not_Nil: "dec n \<noteq> []"
  by (subst dec.simps) simp

lemma dec_inj: "dec m = dec n \<Longrightarrow> m = n"
proof (induction m arbitrary: n rule: dec.induct)
  case (1 m)
  show ?case
  proof (cases "m < 10")
    case True
    then have dm: "dec m = [of_nat (48 + m)]"
      by (subst dec.simps) simp
    show ?thesis
    proof (cases "n < 10")
      case n: True
      then have "dec n = [of_nat (48 + n)]"
        by (subst dec.simps) simp
      with dm "1.prems" True n show ?thesis
        by (auto dest: digit_char_inj)
    next
      case False
      then have "dec n = dec (n div 10) @ [of_nat (48 + n mod 10)]"
        by (subst dec.simps) simp
      with dm "1.prems" dec_not_Nil [of "n div 10"] show ?thesis
        by (cases "dec (n div 10)") simp_all
    qed
  next
    case False
    then have dm: "dec m = dec (m div 10) @ [of_nat (48 + m mod 10)]"
      by (subst dec.simps) simp
    show ?thesis
    proof (cases "n < 10")
      case True
      then have "dec n = [of_nat (48 + n)]"
        by (subst dec.simps) simp
      with dm "1.prems" dec_not_Nil [of "m div 10"] show ?thesis
        by (cases "dec (m div 10)") simp_all
    next
      case n: False
      then have "dec n = dec (n div 10) @ [of_nat (48 + n mod 10)]"
        by (subst dec.simps) simp
      with dm "1.prems" have e: "dec (m div 10) = dec (n div 10)"
        and d: "(of_nat (48 + m mod 10) :: jschar) = of_nat (48 + n mod 10)"
        by simp_all
      from "1.IH" [OF False e] have "m div 10 = n div 10" .
      moreover from d have "m mod 10 = n mod 10"
        by (rule digit_char_inj [rotated 2]) simp_all
      ultimately show ?thesis
        by (metis div_mult_mod_eq)
    qed
  qed
qed

text \<open>Submissions at different clock readings do get different ids.\<close>

lemma distinct_readings_distinct_ids:
  assumes "user1 \<noteq> []" "user2 \<noteq> []" "now1 \<noteq> now2"
  shows "\<exists>id1 id2. fst (postHandler now1 user1 jobs1) = Started id1 Pending (js ''Scraping started'')
     \<and> fst (postHandler now2 user2 jobs2) = Started id2 Pending (js ''Scraping started'')
     \<and> id1 \<noteq> id2"
  using assms by (auto simp: postHandler_def Let_def dest: dec_inj)

end
